theory Spec2Isabelle
  imports Main
begin

section \<open>Application state (src/App.tsx)\<close>

text \<open>
  The component \<open>App\<close> keeps its state in React \<open>useState\<close> cells.  One record holds the
  cells that the history manager, the search and the import read or write.  Every handler is a
  function from the state of the render it was created in to the state after its setters have
  run; handlers run one at a time, each on the state left by the previous one.
  JavaScript strings are modelled as \<^typ>\<open>string\<close>: one \<^typ>\<open>char\<close> per UTF-16 code unit, for
  code units below 256.
\<close>

datatype ActiveTab = Html | Css | Js

datatype ActiveAppView = EditorView | SavedProjectsView

record search_results =
  indices :: "int list"
  currentResultIndex :: int

record app_state =
  htmlCode :: string
  cssCode :: string
  jsCode :: string
  activeTab :: ActiveTab
  activeAppView :: ActiveAppView
  searchTerm :: string
  searchResults :: search_results
  lastSearchedTerm :: string
  htmlUndoStack :: "string list"
  cssUndoStack :: "string list"
  jsUndoStack :: "string list"
  htmlRedoStack :: "string list"
  cssRedoStack :: "string list"
  jsRedoStack :: "string list"
  editorUpdateKey :: nat

definition MAX_UNDO_STACK_SIZE :: nat where
  "MAX_UNDO_STACK_SIZE = 50"

section \<open>Buffer history manager\<close>

text \<open>
  \<open>pushToUndoStackInternal\<close> (App.tsx, lines 106-114) returns early, leaving the stack as it
  is, when the stack's first entry already is the value to push; otherwise it hands the setter
  the new stack, cut to \<open>MAX_UNDO_STACK_SIZE\<close> entries.  The model returns the stack the cell
  holds afterwards.
\<close>

definition pushToUndoStackInternal :: "string \<Rightarrow> string list \<Rightarrow> string list" where
  "pushToUndoStackInternal currentCodeValue stack =
     (if length stack > 0 \<and> stack ! 0 = currentCodeValue then stack
      else let newStack = currentCodeValue # stack
           in if length newStack > MAX_UNDO_STACK_SIZE
              then take MAX_UNDO_STACK_SIZE newStack else newStack)"

definition handleHtmlChange :: "string \<Rightarrow> app_state \<Rightarrow> app_state" where
  "handleHtmlChange v s =
     (if v \<noteq> htmlCode s
      then s\<lparr>htmlUndoStack := pushToUndoStackInternal (htmlCode s) (htmlUndoStack s),
             htmlCode := v,
             htmlRedoStack := []\<rparr>
      else s)"

definition handleCssChange :: "string \<Rightarrow> app_state \<Rightarrow> app_state" where
  "handleCssChange v s =
     (if v \<noteq> cssCode s
      then s\<lparr>cssUndoStack := pushToUndoStackInternal (cssCode s) (cssUndoStack s),
             cssCode := v,
             cssRedoStack := []\<rparr>
      else s)"

definition handleJsChange :: "string \<Rightarrow> app_state \<Rightarrow> app_state" where
  "handleJsChange v s =
     (if v \<noteq> jsCode s
      then s\<lparr>jsUndoStack := pushToUndoStackInternal (jsCode s) (jsUndoStack s),
             jsCode := v,
             jsRedoStack := []\<rparr>
      else s)"

text \<open>
  \<open>renderEditor\<close> (lines 229-244) mounts the editor of the active tab only and wires its
  \<open>onChange\<close> to that tab's change handler: an edit typed by the user is a commit on the active
  document.
\<close>

definition editorOnChange :: "string \<Rightarrow> app_state \<Rightarrow> app_state" where
  "editorOnChange v s =
     (case activeTab s of
        Html \<Rightarrow> handleHtmlChange v s
      | Css \<Rightarrow> handleCssChange v s
      | Js \<Rightarrow> handleJsChange v s)"

text \<open>\<open>handleUndo\<close> (lines 321-341) and \<open>handleRedo\<close> (lines 343-363), on the active tab.\<close>

definition handleUndo :: "app_state \<Rightarrow> app_state" where
  "handleUndo s =
     (case activeTab s of
        Html \<Rightarrow>
          (case htmlUndoStack s of
             [] \<Rightarrow> s
           | lastState # restOfStack \<Rightarrow>
               s\<lparr>htmlRedoStack := take MAX_UNDO_STACK_SIZE (htmlCode s # htmlRedoStack s),
                 htmlCode := lastState,
                 htmlUndoStack := restOfStack,
                 editorUpdateKey := editorUpdateKey s + 1\<rparr>)
      | Css \<Rightarrow>
          (case cssUndoStack s of
             [] \<Rightarrow> s
           | lastState # restOfStack \<Rightarrow>
               s\<lparr>cssRedoStack := take MAX_UNDO_STACK_SIZE (cssCode s # cssRedoStack s),
                 cssCode := lastState,
                 cssUndoStack := restOfStack,
                 editorUpdateKey := editorUpdateKey s + 1\<rparr>)
      | Js \<Rightarrow>
          (case jsUndoStack s of
             [] \<Rightarrow> s
           | lastState # restOfStack \<Rightarrow>
               s\<lparr>jsRedoStack := take MAX_UNDO_STACK_SIZE (jsCode s # jsRedoStack s),
                 jsCode := lastState,
                 jsUndoStack := restOfStack,
                 editorUpdateKey := editorUpdateKey s + 1\<rparr>))"

definition handleRedo :: "app_state \<Rightarrow> app_state" where
  "handleRedo s =
     (case activeTab s of
        Html \<Rightarrow>
          (case htmlRedoStack s of
             [] \<Rightarrow> s
           | nextState # restOfStack \<Rightarrow>
               s\<lparr>htmlUndoStack := take MAX_UNDO_STACK_SIZE (htmlCode s # htmlUndoStack s),
                 htmlCode := nextState,
                 htmlRedoStack := restOfStack,
                 editorUpdateKey := editorUpdateKey s + 1\<rparr>)
      | Css \<Rightarrow>
          (case cssRedoStack s of
             [] \<Rightarrow> s
           | nextState # restOfStack \<Rightarrow>
               s\<lparr>cssUndoStack := take MAX_UNDO_STACK_SIZE (cssCode s # cssUndoStack s),
                 cssCode := nextState,
                 cssRedoStack := restOfStack,
                 editorUpdateKey := editorUpdateKey s + 1\<rparr>)
      | Js \<Rightarrow>
          (case jsRedoStack s of
             [] \<Rightarrow> s
           | nextState # restOfStack \<Rightarrow>
               s\<lparr>jsUndoStack := take MAX_UNDO_STACK_SIZE (jsCode s # jsUndoStack s),
                 jsCode := nextState,
                 jsRedoStack := restOfStack,
                 editorUpdateKey := editorUpdateKey s + 1\<rparr>))"

text \<open>\<open>isRedoDisabled\<close> (lines 432-435): the redo button is greyed out.\<close>

definition isRedoDisabled :: "app_state \<Rightarrow> bool" where
  "isRedoDisabled s \<longleftrightarrow>
     activeAppView s \<noteq> EditorView \<or>
     (activeTab s = Html \<and> length (htmlRedoStack s) = 0) \<or>
     (activeTab s = Css \<and> length (cssRedoStack s) = 0) \<or>
     (activeTab s = Js \<and> length (jsRedoStack s) = 0)"

text \<open>
  The tab buttons (lines 547-551) select the active document and reset the search; no stack is
  touched.
\<close>

definition selectTab :: "ActiveTab \<Rightarrow> app_state \<Rightarrow> app_state" where
  "selectTab tab s =
     s\<lparr>activeTab := tab,
       searchResults := \<lparr>indices = [], currentResultIndex = - 1\<rparr>,
       lastSearchedTerm := []\<rparr>"

text \<open>
  A document is the triple (text, undo stack, redo stack) of one tab.  These projections read
  the document of a tab out of the state.
\<close>

definition doc_text :: "ActiveTab \<Rightarrow> app_state \<Rightarrow> string" where
  "doc_text tab s = (case tab of Html \<Rightarrow> htmlCode s | Css \<Rightarrow> cssCode s | Js \<Rightarrow> jsCode s)"

definition doc_undo :: "ActiveTab \<Rightarrow> app_state \<Rightarrow> string list" where
  "doc_undo tab s =
     (case tab of Html \<Rightarrow> htmlUndoStack s | Css \<Rightarrow> cssUndoStack s | Js \<Rightarrow> jsUndoStack s)"

definition doc_redo :: "ActiveTab \<Rightarrow> app_state \<Rightarrow> string list" where
  "doc_redo tab s =
     (case tab of Html \<Rightarrow> htmlRedoStack s | Css \<Rightarrow> cssRedoStack s | Js \<Rightarrow> jsRedoStack s)"

text \<open>The user's operations on the documents, and a run of them from left to right.\<close>

datatype action = Commit string | Undo | Redo | SelectTab ActiveTab

fun step :: "action \<Rightarrow> app_state \<Rightarrow> app_state" where
  "step (Commit v) s = editorOnChange v s"
| "step Undo s = handleUndo s"
| "step Redo s = handleRedo s"
| "step (SelectTab tab) s = selectTab tab s"

fun run :: "action list \<Rightarrow> app_state \<Rightarrow> app_state" where
  "run [] s = s"
| "run (a # as) s = run as (step a s)"

definition stacks_bounded :: "app_state \<Rightarrow> bool" where
  "stacks_bounded s \<longleftrightarrow>
     length (htmlUndoStack s) \<le> MAX_UNDO_STACK_SIZE \<and>
     length (cssUndoStack s) \<le> MAX_UNDO_STACK_SIZE \<and>
     length (jsUndoStack s) \<le> MAX_UNDO_STACK_SIZE \<and>
     length (htmlRedoStack s) \<le> MAX_UNDO_STACK_SIZE \<and>
     length (cssRedoStack s) \<le> MAX_UNDO_STACK_SIZE \<and>
     length (jsRedoStack s) \<le> MAX_UNDO_STACK_SIZE"

text \<open>
  The state of the first render (lines 23-47): the three texts come from \<open>./constants\<close>, which
  is outside the sources at hand, so they are parameters; all six stacks start empty.
\<close>

definition initial_state :: "string \<Rightarrow> string \<Rightarrow> string \<Rightarrow> app_state" where
  "initial_state initialHtml initialCss initialJs =
     \<lparr>htmlCode = initialHtml, cssCode = initialCss, jsCode = initialJs,
      activeTab = Html, activeAppView = EditorView,
      searchTerm = [], searchResults = \<lparr>indices = [], currentResultIndex = - 1\<rparr>,
      lastSearchedTerm = [],
      htmlUndoStack = [], cssUndoStack = [], jsUndoStack = [],
      htmlRedoStack = [], cssRedoStack = [], jsRedoStack = [],
      editorUpdateKey = 0\<rparr>"

text \<open>Two concrete states used to instantiate the theorems below.\<close>

definition full_state :: app_state where
  "full_state =
     (initial_state ''new'' [] [])
       \<lparr>htmlUndoStack := ''newest'' # replicate 48 ''mid'' @ [''oldest''],
        htmlRedoStack := ''r1'' # replicate 48 ''mid'' @ [''r50'']\<rparr>"

definition undone_state :: app_state where
  "undone_state =
     handleUndo (editorOnChange ''<div>hello</div>'' (initial_state ''<div>hi</div>'' [] []))"

section \<open>Project import (src/App.tsx, lines 283-319)\<close>

text \<open>
  The \<open>onload\<close> callback of \<open>handleImportProject\<close> parses the file with the browser's
  \<open>DOMParser\<close>, reads three elements by id and then runs the setters.  The browser's parser is
  not part of the repository: it is a parameter that returns either a thrown exception or a
  document, and a document is the partial map \<open>getElementById\<close>.  An element carries the two
  properties the callback reads.  Everything inside the \<open>try\<close> block that can throw comes
  before the first setter; the \<open>catch\<close> branch shows the failure alert and runs no setter.
  The callback returns the state after its setters and the text of the alert it shows.
\<close>

record dom_element =
  innerHTML :: string
  textContent :: string

type_synonym dom_document = "string \<rightharpoonup> dom_element"

datatype js_exception = Exception string

definition clearAllUndoRedoStacks :: "app_state \<Rightarrow> app_state" where
  "clearAllUndoRedoStacks s =
     s\<lparr>htmlUndoStack := [], cssUndoStack := [], jsUndoStack := [],
       htmlRedoStack := [], cssRedoStack := [], jsRedoStack := []\<rparr>"

definition import_success_message :: string where
  "import_success_message = ''Project imported successfully!''"

definition import_failure_message :: string where
  "import_failure_message = ''Failed to import project. Make sure it is a valid project file.''"

definition handleImportProject_onload ::
  "(string \<Rightarrow> js_exception + dom_document) \<Rightarrow> string \<Rightarrow> app_state \<Rightarrow> app_state \<times> string" where
  "handleImportProject_onload parseFromString fileContent s =
     (case parseFromString fileContent of
        Inl error \<Rightarrow> (s, import_failure_message)
      | Inr doc \<Rightarrow>
          let importedHtml =
                (case doc ''project-html-content'' of None \<Rightarrow> [] | Some el \<Rightarrow> innerHTML el);
              importedCss =
                (case doc ''project-css'' of None \<Rightarrow> [] | Some el \<Rightarrow> textContent el);
              importedJs =
                (case doc ''project-js'' of None \<Rightarrow> [] | Some el \<Rightarrow> textContent el)
          in ((clearAllUndoRedoStacks s)
                \<lparr>htmlCode := importedHtml,
                 cssCode := importedCss,
                 jsCode := importedJs,
                 activeTab := Html,
                 activeAppView := EditorView,
                 editorUpdateKey := editorUpdateKey s + 1\<rparr>,
              import_success_message))"

text \<open>
  The \<open>onchange\<close> handler of the file input (lines 287-316).  Without a selected file it does
  nothing.  With one it creates a \<open>FileReader\<close>, sets its \<open>onload\<close> to the callback above and
  starts \<open>readAsText\<close>.  The reader ends a read with a \<open>load\<close> event that carries the text, or
  with an \<open>error\<close> event when the file cannot be read; the handler sets no \<open>onerror\<close>, so after
  an \<open>error\<close> event no code of the component runs.  The result is the state and the alert
  shown, if any.
\<close>

datatype file_read = Load string | ReadError

definition handleImportProject_onchange ::
  "(string \<Rightarrow> js_exception + dom_document) \<Rightarrow> file_read option \<Rightarrow> app_state
     \<Rightarrow> app_state \<times> string option" where
  "handleImportProject_onchange parseFromString file s =
     (case file of
        None \<Rightarrow> (s, None)
      | Some ReadError \<Rightarrow> (s, None)
      | Some (Load fileContent) \<Rightarrow>
          (case handleImportProject_onload parseFromString fileContent s of
             (s', message) \<Rightarrow> (s', Some message)))"

text \<open>A parser result for a file without a script element.\<close>

definition no_script_parser :: "string \<Rightarrow> js_exception + dom_document" where
  "no_script_parser content =
     Inr [''project-html-content'' \<mapsto> \<lparr>innerHTML = ''<p>hi</p>'', textContent = ''hi''\<rparr>,
          ''project-css'' \<mapsto> \<lparr>innerHTML = ''p{}'', textContent = ''p{}''\<rparr>]"

section \<open>Search (src/App.tsx, lines 165-227)\<close>

text \<open>
  \<open>String.prototype.toLowerCase\<close> on code units below 256: the letters \<open>A\<close> to \<open>Z\<close> and the
  Latin-1 capitals 192 to 222 (without the multiplication sign, 215) move up by 32.
\<close>

definition toLowerCase_unit :: "char \<Rightarrow> char" where
  "toLowerCase_unit c =
     (let n = (of_char c :: nat)
      in if (65 \<le> n \<and> n \<le> 90) \<or> (192 \<le> n \<and> n \<le> 222 \<and> n \<noteq> 215)
         then char_of (n + 32) else c)"

definition toLowerCase :: "string \<Rightarrow> string" where
  "toLowerCase text = map toLowerCase_unit text"

text \<open>
  \<open>String.prototype.trim\<close> removes white space and line terminators at both ends; below 256
  these are the code units 9 to 13, 32 and 160.
\<close>

definition is_white_space :: "char \<Rightarrow> bool" where
  "is_white_space c \<longleftrightarrow>
     (let n = (of_char c :: nat) in (9 \<le> n \<and> n \<le> 13) \<or> n = 32 \<or> n = 160)"

definition trim :: "string \<Rightarrow> string" where
  "trim text = rev (dropWhile is_white_space (rev (dropWhile is_white_space text)))"

text \<open>
  \<open>String.prototype.indexOf(searchString, position)\<close>: the position is clamped into
  \<open>0 .. length\<close>, then the first offset at or after it where \<open>searchString\<close> occurs is returned,
  or \<open>-1\<close>.
\<close>

function find_from :: "string \<Rightarrow> string \<Rightarrow> nat \<Rightarrow> int" where
  "find_from text searchString k =
     (if k + length searchString > length text then - 1
      else if take (length searchString) (drop k text) = searchString then int k
      else find_from text searchString (Suc k))"
  by pat_completeness auto
termination
  by (relation "measure (\<lambda>(text, searchString, k). Suc (length text) - k)") auto

declare find_from.simps [simp del]

definition indexOf :: "string \<Rightarrow> string \<Rightarrow> int \<Rightarrow> int" where
  "indexOf text searchString position =
     find_from text searchString (nat (min (max position 0) (int (length text))))"

text \<open>
  The loop of lines 186-189,
  \<^verbatim>\<open>let i = -1; while ((i = codeToSearch.indexOf(term, i + 1)) !== -1) newIndices.push(i);\<close>
  It does not return for an empty term, so it is a partial function: \<open>None\<close> is "no result".
\<close>

partial_function (option) search_loop :: "string \<Rightarrow> string \<Rightarrow> int \<Rightarrow> int list \<Rightarrow> int list option" where
  "search_loop codeToSearch term i newIndices =
     (if indexOf codeToSearch term (i + 1) \<noteq> - 1
      then search_loop codeToSearch term (indexOf codeToSearch term (i + 1))
             (newIndices @ [indexOf codeToSearch term (i + 1)])
      else Some newIndices)"

declare search_loop.simps [code]

text \<open>
  The refs of the three editors: whether \<open>ref.current\<close> holds a mounted element.  The element
  itself is only focused and scrolled (lines 202-226), which changes no state cell.
\<close>

record editor_refs =
  htmlEditorRef :: bool
  cssEditorRef :: bool
  jsEditorRef :: bool

definition getCurrentEditorRef :: "editor_refs \<Rightarrow> app_state \<Rightarrow> bool option" where
  "getCurrentEditorRef refs s =
     (if activeAppView s \<noteq> EditorView then None
      else case activeTab s of
             Html \<Rightarrow> Some (htmlEditorRef refs)
           | Css \<Rightarrow> Some (cssEditorRef refs)
           | Js \<Rightarrow> Some (jsEditorRef refs))"

definition getCurrentCode :: "app_state \<Rightarrow> string" where
  "getCurrentCode s =
     (if activeAppView s \<noteq> EditorView then []
      else case activeTab s of Html \<Rightarrow> htmlCode s | Css \<Rightarrow> cssCode s | Js \<Rightarrow> jsCode s)"

text \<open>The remainder operator \<open>%\<close> of JavaScript: the sign follows the dividend.\<close>

definition js_rem :: "int \<Rightarrow> int \<Rightarrow> int" where
  "js_rem a b = sgn a * (\<bar>a\<bar> mod \<bar>b\<bar>)"

datatype navigation = Next | Prev

definition no_results :: search_results where
  "no_results = \<lparr>indices = [], currentResultIndex = - 1\<rparr>"

definition handleSearch :: "editor_refs \<Rightarrow> navigation option \<Rightarrow> app_state \<Rightarrow> app_state option" where
  "handleSearch refs navigation s =
     (let currentCode = getCurrentCode s;
          actualEditorElement = (case getCurrentEditorRef refs s of None \<Rightarrow> False | Some el \<Rightarrow> el)
      in if \<not> actualEditorElement \<or> currentCode = [] then Some (s\<lparr>searchResults := no_results\<rparr>)
         else if trim (searchTerm s) = [] then Some (s\<lparr>searchResults := no_results\<rparr>)
         else if searchTerm s \<noteq> lastSearchedTerm s \<or> navigation = None then
           (case search_loop (toLowerCase currentCode) (toLowerCase (searchTerm s)) (- 1) [] of
              None \<Rightarrow> None
            | Some newIndices \<Rightarrow>
                Some (s\<lparr>searchResults :=
                          \<lparr>indices = newIndices,
                           currentResultIndex = (if length newIndices > 0 then 0 else - 1)\<rparr>,
                        lastSearchedTerm := searchTerm s\<rparr>))
         else if navigation \<noteq> None \<and> length (indices (searchResults s)) > 0 then
           (if navigation = Some Next
            then Some (s\<lparr>searchResults :=
                   \<lparr>indices = indices (searchResults s),
                    currentResultIndex =
                      js_rem (currentResultIndex (searchResults s) + 1)
                             (int (length (indices (searchResults s))))\<rparr>\<rparr>)
            else Some (s\<lparr>searchResults :=
                   \<lparr>indices = indices (searchResults s),
                    currentResultIndex =
                      js_rem (currentResultIndex (searchResults s) - 1
                                + int (length (indices (searchResults s))))
                             (int (length (indices (searchResults s))))\<rparr>\<rparr>))
         else Some (s\<lparr>searchResults :=
                \<lparr>indices = indices (searchResults s),
                 currentResultIndex = currentResultIndex (searchResults s)\<rparr>\<rparr>))"

text \<open>
  The claim's wording of the scan, for comparison with \<open>search_loop\<close>: each scan resumes at
  the end of the previous match, so that matches never overlap.  The function walks the text
  with the offset \<open>k\<close> of its first argument's head; \<open>skip\<close> counts the code units of the
  previous match that still lie ahead.
\<close>

fun scan_from_match_end :: "string \<Rightarrow> string \<Rightarrow> nat \<Rightarrow> nat \<Rightarrow> int list" where
  "scan_from_match_end [] term k skip = []"
| "scan_from_match_end (c # cs) term k skip =
     (if skip > 0 then scan_from_match_end cs term (Suc k) (skip - 1)
      else if term \<noteq> [] \<and> take (length term) (c # cs) = term
           then int k # scan_from_match_end cs term (Suc k) (length term - 1)
           else scan_from_match_end cs term (Suc k) 0)"

text \<open>All offsets at which a term occurs in a text, in ascending order.\<close>

definition occurs_at :: "string \<Rightarrow> string \<Rightarrow> nat \<Rightarrow> bool" where
  "occurs_at text term k \<longleftrightarrow>
     k + length term \<le> length text \<and> take (length term) (drop k text) = term"

definition all_occurrences :: "string \<Rightarrow> string \<Rightarrow> int list" where
  "all_occurrences text term = map int (filter (occurs_at text term) [0..<Suc (length text)])"

text \<open>The state of the scenario: the markup document is \<open><div><div>\<close> and the term is \<open>div\<close>.\<close>

definition all_mounted :: editor_refs where
  "all_mounted = \<lparr>htmlEditorRef = True, cssEditorRef = True, jsEditorRef = True\<rparr>"

definition div_state :: app_state where
  "div_state = (initial_state ''<div><div>'' [] [])\<lparr>searchTerm := ''div''\<rparr>"

definition div_found :: "int \<Rightarrow> app_state" where
  "div_found i =
     div_state\<lparr>searchResults := \<lparr>indices = [1, 6], currentResultIndex = i\<rparr>,
               lastSearchedTerm := ''div''\<rparr>"

definition overlap_state :: app_state where
  "overlap_state = (initial_state ''aaa'' [] [])\<lparr>searchTerm := ''aa''\<rparr>"

definition blank_state :: app_state where
  "blank_state = (initial_state ''a b'' [] [])\<lparr>searchTerm := '' ''\<rparr>"

definition empty_text_state :: app_state where
  "empty_text_state = (initial_state [] [] [])\<lparr>searchTerm := ''aa''\<rparr>"


section \<open>Tokenizer and highlighter (src/components/Editor.tsx, lines 13-82)\<close>

subsection \<open>Regular expressions\<close>

text \<open>
  The highlighter is written with JavaScript regular expressions.  The ones it uses are built
  from the constructs below; none carries the flags \<open>i\<close>, \<open>m\<close> or \<open>s\<close>.  Capture groups are left
  out of the syntax: every callback in the file reads the whole match only.  The classes
  \<open>\\w\<close>, \<open>\\d\<close> and \<open>\\s\<close> are read on code units below 256, where \<open>\\s\<close> is the set that
  \<open>is_white_space\<close> describes.
\<close>

datatype char_class = One char | Range char char | Word | Digit | Space | NonSpace

definition is_digit :: "char \<Rightarrow> bool" where
  "is_digit c \<longleftrightarrow> (let n = (of_char c :: nat) in 48 \<le> n \<and> n \<le> 57)"

definition is_word_char :: "char \<Rightarrow> bool" where
  "is_word_char c \<longleftrightarrow>
     (let n = (of_char c :: nat)
      in (48 \<le> n \<and> n \<le> 57) \<or> (65 \<le> n \<and> n \<le> 90) \<or> (97 \<le> n \<and> n \<le> 122) \<or> n = 95)"

fun in_class :: "char \<Rightarrow> char_class \<Rightarrow> bool" where
  "in_class c (One d) = (c = d)"
| "in_class c (Range lo hi) =
     ((of_char lo :: nat) \<le> of_char c \<and> (of_char c :: nat) \<le> of_char hi)"
| "in_class c Word = is_word_char c"
| "in_class c Digit = is_digit c"
| "in_class c Space = is_white_space c"
| "in_class c NonSpace = (\<not> is_white_space c)"

datatype regexp =
    Eps
  | Atom "char_class list"
  | NotAtom "char_class list"
  | Seq regexp regexp
  | Alt regexp regexp
  | Star regexp
  | LazyStar regexp
  | Lookahead regexp
  | WordBoundary
  | InputStart

text \<open>
  The matcher follows the backtracking semantics of the ECMAScript specification: a pattern is
  run on a state with a continuation, and the first alternative whose continuation succeeds
  wins.  A state is the code unit before the current position (\<open>None\<close> at the start of the
  input) and the rest of the input.  \<open>Atom\<close> is a character class \<open>[...]\<close>, \<open>NotAtom\<close> a negated
  one; \<open>Star\<close> is the greedy \<open>*\<close>, \<open>LazyStar\<close> is \<open>*?\<close>; an iteration that consumes nothing is
  rejected, as the specification's \<open>RepeatMatcher\<close> does.
\<close>

type_synonym mstate = "char option \<times> string"

fun rmatch :: "regexp \<Rightarrow> mstate \<Rightarrow> (mstate \<Rightarrow> mstate option) \<Rightarrow> mstate option" where
  "rmatch Eps x k = k x"
| "rmatch (Atom cs) (p, []) k = None"
| "rmatch (Atom cs) (p, d # ds) k = (if list_ex (in_class d) cs then k (Some d, ds) else None)"
| "rmatch (NotAtom cs) (p, []) k = None"
| "rmatch (NotAtom cs) (p, d # ds) k = (if list_ex (in_class d) cs then None else k (Some d, ds))"
| "rmatch (Seq a b) x k = rmatch a x (\<lambda>y. rmatch b y k)"
| "rmatch (Alt a b) x k = (case rmatch a x k of Some r \<Rightarrow> Some r | None \<Rightarrow> rmatch b x k)"
| "rmatch (Star a) x k =
     (case rmatch a x
             (\<lambda>y. if length (snd y) < length (snd x) then rmatch (Star a) y k else None) of
        Some r \<Rightarrow> Some r
      | None \<Rightarrow> k x)"
| "rmatch (LazyStar a) x k =
     (case k x of
        Some r \<Rightarrow> Some r
      | None \<Rightarrow>
          rmatch a x
            (\<lambda>y. if length (snd y) < length (snd x) then rmatch (LazyStar a) y k else None))"
| "rmatch (Lookahead a) x k = (case rmatch a x Some of Some r \<Rightarrow> k x | None \<Rightarrow> None)"
| "rmatch WordBoundary (p, ds) k =
     (if (case p of None \<Rightarrow> False | Some c \<Rightarrow> is_word_char c)
          \<noteq> (case ds of [] \<Rightarrow> False | d # _ \<Rightarrow> is_word_char d)
      then k (p, ds) else None)"
| "rmatch InputStart (p, ds) k = (if p = None then k (p, ds) else None)"

definition chr :: "char \<Rightarrow> regexp" where
  "chr c = Atom [One c]"

definition lit :: "string \<Rightarrow> regexp" where
  "lit s = foldr (\<lambda>c r. Seq (chr c) r) s Eps"

definition plus_re :: "regexp \<Rightarrow> regexp" where
  "plus_re r = Seq r (Star r)"

definition lazy_plus :: "regexp \<Rightarrow> regexp" where
  "lazy_plus r = Seq r (LazyStar r)"

definition opt :: "regexp \<Rightarrow> regexp" where
  "opt r = Alt r Eps"

fun alts :: "regexp list \<Rightarrow> regexp" where
  "alts [] = NotAtom [Space, NonSpace]"
| "alts [r] = r"
| "alts (r # rs) = Alt r (alts rs)"

text \<open>\<open>.\<close> matches every code unit but a line terminator; \<open>[\s\S]\<close> matches every code unit.\<close>

definition dot :: regexp where
  "dot = NotAtom [One (CHR 0x0A), One (CHR 0x0D)]"

definition any_unit :: regexp where
  "any_unit = Atom [Space, NonSpace]"

text \<open>
  \<open>String.prototype.replace\<close> with a global regular expression and a callback: the matches
  are looked for from left to right in the original string, each search starting where the
  previous match ended (one code unit further after an empty match), and each match is
  replaced by what the callback returns for it.  \<open>p\<close> is the code unit before \<open>text\<close>.
\<close>

function js_replace :: "regexp \<Rightarrow> (string \<Rightarrow> string) \<Rightarrow> char option \<Rightarrow> string \<Rightarrow> string" where
  "js_replace re f p text =
     (case rmatch re (p, text) Some of
        None \<Rightarrow> (case text of [] \<Rightarrow> [] | c # cs \<Rightarrow> c # js_replace re f (Some c) cs)
      | Some (q, rest) \<Rightarrow>
          (if length text - length rest = 0
           then f [] @ (case text of [] \<Rightarrow> [] | c # cs \<Rightarrow> c # js_replace re f (Some c) cs)
           else f (take (length text - length rest) text)
                  @ js_replace re f q (drop (length text - length rest) text)))"
  by pat_completeness auto
termination
  by (relation "measure (\<lambda>(re, f, p, text). length text)") auto

declare js_replace.simps [simp del]

subsection \<open>The highlighter\<close>

datatype token_class =
    Comment | Punctuation | Tag | AttributeName | AttributeValue | StringTok | Keyword
  | Selector | PropertyName | CssValue | Number | FunctionName | Variable | Operator

fun tokenColors :: "token_class \<Rightarrow> string" where
  "tokenColors Comment = ''text-green-400''"
| "tokenColors Punctuation = ''text-slate-400''"
| "tokenColors Tag = ''text-red-400''"
| "tokenColors AttributeName = ''text-yellow-400''"
| "tokenColors AttributeValue = ''text-lime-300''"
| "tokenColors StringTok = ''text-lime-300''"
| "tokenColors Keyword = ''text-purple-400''"
| "tokenColors Selector = ''text-orange-400''"
| "tokenColors PropertyName = ''text-sky-300''"
| "tokenColors CssValue = ''text-amber-300''"
| "tokenColors Number = ''text-teal-300''"
| "tokenColors FunctionName = ''text-blue-400''"
| "tokenColors Variable = ''text-indigo-300''"
| "tokenColors Operator = ''text-pink-400''"

text \<open>\<open>escapeHtml\<close> (lines 31-42): \<open>text.replace(/[&<>"']/g, ...)\<close> with a \<open>switch\<close> on the match.\<close>

definition escape_match :: "string \<Rightarrow> string" where
  "escape_match m =
     (if m = ''&'' then ''&amp;''
      else if m = ''<'' then ''&lt;''
      else if m = ''>'' then ''&gt;''
      else if m = [CHR 0x22] then ''&quot;''
      else if m = [CHR 0x27] then ''&#39;''
      else m)"

definition escapeHtml :: "string \<Rightarrow> string" where
  "escapeHtml text =
     js_replace (Atom [One CHR ''&'', One CHR ''<'', One CHR ''>'', One (CHR 0x22), One (CHR 0x27)])
       escape_match None text"

datatype language = html | css | javascript

record rule =
  regex :: regexp
  tokenClass :: token_class

text \<open>The rules of lines 51-70, in the order in which they are pushed.\<close>

definition comment_rule :: rule where
  "comment_rule =
     \<lparr>regex = Alt (Seq (lit ''//'') (Star dot))
               (Alt (Seq (lit ''/*'') (Seq (LazyStar any_unit) (lit ''*/'')))
                    (Seq (lit ''<!--'') (Seq (LazyStar any_unit) (lit ''-->'')))),
      tokenClass = Comment\<rparr>"

definition string_rule :: rule where
  "string_rule =
     \<lparr>regex = Alt (Seq (chr (CHR 0x27)) (Seq (LazyStar dot) (chr (CHR 0x27))))
               (Alt (Seq (chr (CHR 0x22)) (Seq (LazyStar dot) (chr (CHR 0x22))))
                    (Seq (chr CHR ''`'') (Seq (LazyStar dot) (chr CHR ''`'')))),
      tokenClass = StringTok\<rparr>"

definition name_class :: "char_class list" where
  "name_class = [Word, Digit, One CHR ''-'']"

definition html_rules :: "rule list" where
  "html_rules =
     [\<lparr>regex = Seq (lit ''&lt;'') (Seq (opt (chr CHR ''/'')) (plus_re (Atom name_class))),
       tokenClass = Tag\<rparr>,
      \<lparr>regex = Seq (plus_re (Atom name_class))
                 (Lookahead (Seq (Star (Atom [Space])) (lit ''=&quot;''))),
       tokenClass = AttributeName\<rparr>,
      \<lparr>regex = lit ''&gt;'', tokenClass = Tag\<rparr>]"

definition css_rules :: "rule list" where
  "css_rules =
     [\<lparr>regex = Seq (Alt InputStart (Atom [Space, One CHR ''{'', One CHR ''}'', One CHR '';'']))
                 (Seq (lazy_plus (Atom [Word, Digit, One CHR ''*'', One CHR ''.'', One CHR ''#'',
                                        One CHR ''['', One CHR '']'', One CHR '':'', One (CHR 0x22),
                                        One (CHR 0x27), One CHR ''-'', Space, One CHR ''>'',
                                        One CHR ''+'', One CHR ''~'']))
                      (Lookahead (Seq (Star (Atom [Space])) (chr CHR ''{'')))),
       tokenClass = Selector\<rparr>,
      \<lparr>regex = Seq (plus_re (Atom name_class)) (Seq (Star (Atom [Space])) (chr CHR '':'')),
       tokenClass = PropertyName\<rparr>,
      \<lparr>regex = Seq (chr CHR '':'')
                 (Seq (Star (Atom [Space])) (plus_re (NotAtom [One CHR '';'', One CHR ''}'']))),
       tokenClass = CssValue\<rparr>,
      \<lparr>regex = Atom [One CHR ''{'', One CHR ''}'', One CHR ''('', One CHR '')'', One CHR '';'',
                      One CHR '',''],
       tokenClass = Punctuation\<rparr>]"

definition js_keywords :: "string list" where
  "js_keywords =
     [''const'', ''let'', ''var'', ''function'', ''return'', ''if'', ''else'', ''for'', ''while'',
      ''switch'', ''case'', ''break'', ''continue'', ''new'', ''this'', ''import'', ''export'',
      ''default'', ''class'', ''extends'', ''super'', ''try'', ''catch'', ''finally'', ''typeof'',
      ''instanceof'', ''delete'', ''void'', ''async'', ''await'', ''true'', ''false'', ''null'',
      ''undefined'']"

definition javascript_rules :: "rule list" where
  "javascript_rules =
     [\<lparr>regex = Seq WordBoundary (Seq (alts (map lit js_keywords)) WordBoundary),
       tokenClass = Keyword\<rparr>,
      \<lparr>regex = Seq WordBoundary
                 (Seq (Seq (Atom [Range CHR ''A'' CHR ''Z'', One CHR ''_''])
                           (Star (Atom [Range CHR ''A'' CHR ''Z'', Range CHR ''0'' CHR ''9'',
                                        One CHR ''_''])))
                      WordBoundary),
       tokenClass = Variable\<rparr>,
      \<lparr>regex = Seq WordBoundary
                 (Seq (Seq (Atom [Range CHR ''a'' CHR ''z'', Range CHR ''A'' CHR ''Z'',
                                  One CHR ''_''])
                           (Star (Atom [Word])))
                      (Seq (Star (Atom [Space])) (Lookahead (chr CHR ''('')))),
       tokenClass = FunctionName\<rparr>,
      \<lparr>regex = Seq WordBoundary
                 (Seq (plus_re (Atom [Digit]))
                      (Seq (opt (Seq (chr CHR ''.'') (plus_re (Atom [Digit])))) WordBoundary)),
       tokenClass = Number\<rparr>,
      \<lparr>regex = Atom [One CHR ''{'', One CHR ''}'', One CHR ''('', One CHR '')'', One CHR '';'',
                      One CHR '','', One CHR ''.'', One CHR '':'', One CHR ''?''],
       tokenClass = Punctuation\<rparr>,
      \<lparr>regex = Atom [One CHR ''+'', One CHR ''-'', One CHR ''*'', One CHR ''/'', One CHR ''%'',
                      One CHR ''='', One CHR ''&'', One CHR ''|'', One CHR ''<'', One CHR ''>'',
                      One CHR ''!'', One CHR ''^'', One CHR ''~''],
       tokenClass = Operator\<rparr>]"

definition rules_for :: "language \<Rightarrow> rule list" where
  "rules_for lang =
     [comment_rule, string_rule]
       @ (case lang of html \<Rightarrow> html_rules | css \<Rightarrow> css_rules | javascript \<Rightarrow> javascript_rules)"

text \<open>
  The callback of line 75-79: a match that starts with \<open><span\<close> or contains \<open></span>\<close> is
  returned as it is, any other match is wrapped in a span of its class.
\<close>

definition startsWith :: "string \<Rightarrow> string \<Rightarrow> bool" where
  "startsWith text searchString \<longleftrightarrow> take (length searchString) text = searchString"

definition includes_str :: "string \<Rightarrow> string \<Rightarrow> bool" where
  "includes_str text searchString \<longleftrightarrow> indexOf text searchString 0 \<noteq> - 1"

definition span_open :: "token_class \<Rightarrow> string" where
  "span_open cls = ''<span class='' @ [CHR 0x22] @ tokenColors cls @ [CHR 0x22] @ ''>''"

definition span_close :: string where
  "span_close = ''</span>''"

definition wrap_match :: "token_class \<Rightarrow> string \<Rightarrow> string" where
  "wrap_match cls m =
     (if startsWith m ''<span'' \<or> includes_str m ''</span>'' then m
      else span_open cls @ m @ span_close)"

definition apply_rule :: "string \<Rightarrow> rule \<Rightarrow> string" where
  "apply_rule highlightedText r = js_replace (regex r) (wrap_match (tokenClass r)) None highlightedText"

definition applySyntaxHighlighting :: "string \<Rightarrow> language \<Rightarrow> string" where
  "applySyntaxHighlighting text lang =
     (if text = [] then []
      else js_replace (chr (CHR 0x0A)) (\<lambda>m. ''<br>'') None
             (foldl apply_rule (escapeHtml text) (rules_for lang)))"

subsection \<open>Reading the plain text back\<close>

text \<open>
  The inverse direction, as the round-trip property words it: delete the span tags and turn
  every line-break marker into a newline.  The scan is strict: a tag is a \<open><\<close>, a body free
  of \<open><\<close> and \<open>>\<close>, and a \<open>>\<close>; the body must be \<open>br\<close>, \<open>/span\<close> or start with \<open>span \<close>.  A \<open><\<close>
  or \<open>>\<close> anywhere else makes the markup malformed and the result \<open>None\<close>.
\<close>

datatype tag_mode = Outside | Inside string

definition classify_tag :: "string \<Rightarrow> string option" where
  "classify_tag body =
     (if body = ''br'' then Some [CHR 0x0A]
      else if body = ''/span'' \<or> startsWith body ''span '' then Some []
      else None)"

fun strip_markup :: "string \<Rightarrow> tag_mode \<Rightarrow> string option" where
  "strip_markup [] Outside = Some []"
| "strip_markup [] (Inside body) = None"
| "strip_markup (c # cs) Outside =
     (if c = CHR ''<'' then strip_markup cs (Inside [])
      else if c = CHR ''>'' then None
      else map_option (Cons c) (strip_markup cs Outside))"
| "strip_markup (c # cs) (Inside body) =
     (if c = CHR ''<'' then None
      else if c = CHR ''>'' then
        (case classify_tag (rev body) of
           None \<Rightarrow> None
         | Some t \<Rightarrow> map_option (append t) (strip_markup cs Outside))
      else strip_markup cs (Inside (c # body)))"

text \<open>Decoding of the five entities that \<open>escapeHtml\<close> writes, in one pass from the left.\<close>

function unescapeHtml :: "string \<Rightarrow> string" where
  "unescapeHtml text =
     (case text of
        [] \<Rightarrow> []
      | c # cs \<Rightarrow>
          if startsWith text ''&amp;'' then CHR ''&'' # unescapeHtml (drop 5 text)
          else if startsWith text ''&lt;'' then CHR ''<'' # unescapeHtml (drop 4 text)
          else if startsWith text ''&gt;'' then CHR ''>'' # unescapeHtml (drop 4 text)
          else if startsWith text ''&quot;'' then CHR 0x22 # unescapeHtml (drop 6 text)
          else if startsWith text ''&#39;'' then CHR 0x27 # unescapeHtml (drop 5 text)
          else c # unescapeHtml cs)"
  by pat_completeness auto
termination
  by (relation "measure length") auto

declare unescapeHtml.simps [simp del]

text \<open>
  Three auxiliary readings of a string with markup, used in the proofs.  \<open>outer_text s d\<close>
  keeps the code units of \<open>s\<close> that lie outside every \<open><\<close> ... \<open>>\<close> pair, counting the nesting
  depth from \<open>d\<close>; \<open>depth_after\<close> is the depth at the end; \<open>no_lt_b s prev\<close> says that no \<open><\<close> of
  \<open>s\<close> is followed by the letter \<open>b\<close>, where \<open>prev\<close> tells whether a \<open><\<close> stands before \<open>s\<close>.
\<close>

fun outer_text :: "string \<Rightarrow> nat \<Rightarrow> string" where
  "outer_text [] d = []"
| "outer_text (c # cs) d =
     (if c = CHR ''<'' then outer_text cs (Suc d)
      else if c = CHR ''>'' then outer_text cs (d - 1)
      else if d = 0 then c # outer_text cs d
      else outer_text cs d)"

fun depth_after :: "string \<Rightarrow> nat \<Rightarrow> nat" where
  "depth_after [] d = d"
| "depth_after (c # cs) d =
     (if c = CHR ''<'' then depth_after cs (Suc d)
      else if c = CHR ''>'' then depth_after cs (d - 1)
      else depth_after cs d)"

fun no_lt_b :: "string \<Rightarrow> bool \<Rightarrow> bool" where
  "no_lt_b [] prev = True"
| "no_lt_b (c # cs) prev = (\<not> (prev \<and> c = CHR ''b'') \<and> no_lt_b cs (c = CHR ''<''))"

definition same_text :: "string \<Rightarrow> string \<Rightarrow> bool" where
  "same_text a b \<longleftrightarrow>
     (\<forall>d. outer_text a d = outer_text b d \<and> depth_after a d = depth_after b d) \<and>
     (\<forall>prev. no_lt_b b prev \<longrightarrow> no_lt_b a prev)"

text \<open>
  What \<open>escapeHtml\<close> writes for one code unit, and the last step of the highlighter,
  \<open>replace(/\\n/g, '<br>')\<close>, as maps over the code units; both are proved equal to the
  \<open>js_replace\<close> calls of the model below.
\<close>

definition escape_unit :: "char \<Rightarrow> string" where
  "escape_unit c =
     (if c = CHR ''&'' then ''&amp;''
      else if c = CHR ''<'' then ''&lt;''
      else if c = CHR ''>'' then ''&gt;''
      else if c = CHR 0x22 then ''&quot;''
      else if c = CHR 0x27 then ''&#39;''
      else [c])"

definition nl2br :: "string \<Rightarrow> string" where
  "nl2br s = concat (map (\<lambda>c. if c = CHR 0x0A then ''<br>'' else [c]) s)"

text \<open>Sample texts: a markup line with an attribute and a line break, and a text with a URL.\<close>

definition sample_markup :: string where
  "sample_markup = ''<p class='' @ [CHR 0x22] @ ''a'' @ [CHR 0x22] @ ''>x & y'' @ [CHR 0x0A] @ ''</p>''"

definition sample_url :: string where
  "sample_url = ''see http://x.org''"

section \<open>Properties of the history manager\<close>

lemma push_length: "length (pushToUndoStackInternal v st) \<le> max (length st) MAX_UNDO_STACK_SIZE"
  by (simp add: pushToUndoStackInternal_def Let_def MAX_UNDO_STACK_SIZE_def)

lemma push_bounded:
  "length st \<le> MAX_UNDO_STACK_SIZE \<Longrightarrow> length (pushToUndoStackInternal v st) \<le> MAX_UNDO_STACK_SIZE"
  using push_length [of v st] by simp

lemma push_nonempty: "pushToUndoStackInternal v st \<noteq> []"
  by (cases st) (simp_all add: pushToUndoStackInternal_def Let_def MAX_UNDO_STACK_SIZE_def)

lemma push_front: "pushToUndoStackInternal v st = x # xs \<Longrightarrow> x = v"
  by (cases st) (auto simp: pushToUndoStackInternal_def Let_def MAX_UNDO_STACK_SIZE_def
      split: if_splits)



lemmas change_defs = editorOnChange_def handleHtmlChange_def handleCssChange_def handleJsChange_def
lemmas doc_defs = doc_text_def doc_undo_def doc_redo_def

lemma commit_text: "doc_text (activeTab s) (editorOnChange v s) = v"
  by (cases "activeTab s") (simp_all add: change_defs doc_defs)

lemma commit_tab: "activeTab (editorOnChange v s) = activeTab s"
  by (cases "activeTab s") (simp_all add: change_defs)

lemma commit_undo_stack:
  "v \<noteq> doc_text (activeTab s) s \<Longrightarrow>
   doc_undo (activeTab s) (editorOnChange v s) =
     pushToUndoStackInternal (doc_text (activeTab s) s) (doc_undo (activeTab s) s)"
  by (cases "activeTab s") (simp_all add: change_defs doc_defs)

lemma commit_redo_stack:
  "v \<noteq> doc_text (activeTab s) s \<Longrightarrow> doc_redo (activeTab s) (editorOnChange v s) = []"
  by (cases "activeTab s") (simp_all add: change_defs doc_defs)

lemma commit_same: "editorOnChange (doc_text (activeTab s) s) s = s"
  by (cases "activeTab s") (simp_all add: change_defs doc_defs)

lemma undo_tab: "activeTab (handleUndo s) = activeTab s"
  by (cases "activeTab s") (simp_all add: handleUndo_def split: list.splits)

lemma redo_tab: "activeTab (handleRedo s) = activeTab s"
  by (cases "activeTab s") (simp_all add: handleRedo_def split: list.splits)

lemma undo_Cons:
  "doc_undo (activeTab s) s = x # xs \<Longrightarrow>
   doc_text (activeTab s) (handleUndo s) = x \<and>
   doc_undo (activeTab s) (handleUndo s) = xs \<and>
   doc_redo (activeTab s) (handleUndo s) =
     take MAX_UNDO_STACK_SIZE (doc_text (activeTab s) s # doc_redo (activeTab s) s)"
  by (cases "activeTab s") (simp_all add: handleUndo_def doc_defs)

lemma redo_Cons:
  "doc_redo (activeTab s) s = x # xs \<Longrightarrow>
   doc_text (activeTab s) (handleRedo s) = x \<and>
   doc_redo (activeTab s) (handleRedo s) = xs \<and>
   doc_undo (activeTab s) (handleRedo s) =
     take MAX_UNDO_STACK_SIZE (doc_text (activeTab s) s # doc_undo (activeTab s) s)"
  by (cases "activeTab s") (simp_all add: handleRedo_def doc_defs)

lemma undo_Nil: "doc_undo (activeTab s) s = [] \<Longrightarrow> handleUndo s = s"
  by (cases "activeTab s") (simp_all add: handleUndo_def doc_defs)

lemma redo_Nil: "doc_redo (activeTab s) s = [] \<Longrightarrow> handleRedo s = s"
  by (cases "activeTab s") (simp_all add: handleRedo_def doc_defs)

text \<open>
  Claim C2.  For every document (the document of the active tab, whichever tab that is) and
  all texts \<open>A\<close> and \<open>B\<close> with \<open>A\<close> distinct from \<open>B\<close> and from the document's current text:
  after committing \<open>A\<close>, committing \<open>B\<close> and one undo, the document's text is \<open>A\<close> and its redo
  stack is not empty and has \<open>B\<close> at its front.
\<close>

theorem commit_commit_undo:
  assumes "A \<noteq> B" and "A \<noteq> doc_text (activeTab s) s"
  shows "doc_text (activeTab s) (handleUndo (editorOnChange B (editorOnChange A s))) = A \<and>
         doc_redo (activeTab s) (handleUndo (editorOnChange B (editorOnChange A s))) \<noteq> [] \<and>
         hd (doc_redo (activeTab s) (handleUndo (editorOnChange B (editorOnChange A s)))) = B"
proof -
  let ?t = "activeTab s"
  let ?s1 = "editorOnChange A s"
  let ?s2 = "editorOnChange B ?s1"
  have t1: "activeTab ?s1 = ?t" and t2: "activeTab ?s2 = ?t"
    by (simp_all add: commit_tab)
  have text1: "doc_text ?t ?s1 = A"
    by (rule commit_text)
  have ne: "B \<noteq> doc_text (activeTab ?s1) ?s1"
    using assms(1) text1 t1 by simp
  have u2: "doc_undo ?t ?s2 = pushToUndoStackInternal A (doc_undo ?t ?s1)"
    using commit_undo_stack [OF ne] t1 text1 by simp
  have "doc_undo ?t ?s2 \<noteq> []"
    using u2 push_nonempty [of A "doc_undo ?t ?s1"] by simp
  then obtain x xs where xs: "doc_undo ?t ?s2 = x # xs"
    by (auto simp: neq_Nil_conv)
  have x: "x = A"
    using xs u2 push_front [of A "doc_undo ?t ?s1" x xs] by simp
  have r2: "doc_redo ?t ?s2 = []"
    using commit_redo_stack [OF ne] t1 by simp
  have text2: "doc_text ?t ?s2 = B"
    using commit_text [where v = B and s = ?s1] t1 by simp
  have "doc_text ?t (handleUndo ?s2) = A \<and>
        doc_redo ?t (handleUndo ?s2) = take MAX_UNDO_STACK_SIZE [B]"
    using undo_Cons [of ?s2 x xs] xs x t2 r2 text2 by simp
  then show ?thesis
    by (simp add: MAX_UNDO_STACK_SIZE_def)
qed

theorem commit_commit_undo_witness:
  "''<div>hello</div>'' \<noteq> ''<div>bye</div>'' \<and>
   ''<div>hello</div>'' \<noteq> doc_text (activeTab (initial_state ''<div>hi</div>'' [] [])) (initial_state ''<div>hi</div>'' [] []) \<and>
   doc_text Html (handleUndo (editorOnChange ''<div>bye</div>''
      (editorOnChange ''<div>hello</div>'' (initial_state ''<div>hi</div>'' [] [])))) = ''<div>hello</div>'' \<and>
   hd (doc_redo Html (handleUndo (editorOnChange ''<div>bye</div>''
      (editorOnChange ''<div>hello</div>'' (initial_state ''<div>hi</div>'' [] []))))) = ''<div>bye</div>''"
  using commit_commit_undo [of "''<div>hello</div>''" "''<div>bye</div>''" "initial_state ''<div>hi</div>'' [] []"]
  by (simp add: initial_state_def doc_text_def)

text \<open>
  Claim C3.  When the undo stack of the active document is not empty, an undo immediately
  followed by a redo leaves the document with exactly the text it had before the undo.
\<close>

theorem undo_redo_restores:
  assumes "doc_undo (activeTab s) s \<noteq> []"
  shows "doc_text (activeTab s) (handleRedo (handleUndo s)) = doc_text (activeTab s) s"
proof -
  obtain x xs where xs: "doc_undo (activeTab s) s = x # xs"
    using assms by (auto simp: neq_Nil_conv)
  have "doc_redo (activeTab s) (handleUndo s) =
          doc_text (activeTab s) s # take (MAX_UNDO_STACK_SIZE - 1) (doc_redo (activeTab s) s)"
    using undo_Cons [OF xs] by (simp add: MAX_UNDO_STACK_SIZE_def take_Cons')
  then show ?thesis
    using redo_Cons [of "handleUndo s"] by (simp add: undo_tab)
qed


theorem undo_redo_restores_witness:
  "doc_undo (activeTab (editorOnChange ''<div>hello</div>'' (initial_state ''<div>hi</div>'' [] [])))
     (editorOnChange ''<div>hello</div>'' (initial_state ''<div>hi</div>'' [] [])) \<noteq> [] \<and>
   doc_text Html (handleUndo (editorOnChange ''<div>hello</div>''
     (initial_state ''<div>hi</div>'' [] []))) = ''<div>hi</div>'' \<and>
   doc_text Html (handleRedo (handleUndo (editorOnChange ''<div>hello</div>''
     (initial_state ''<div>hi</div>'' [] [])))) = ''<div>hello</div>''"
  using undo_redo_restores
    [of "editorOnChange ''<div>hello</div>'' (initial_state ''<div>hi</div>'' [] [])"]
  by (simp add: initial_state_def doc_defs change_defs handleUndo_def
      pushToUndoStackInternal_def MAX_UNDO_STACK_SIZE_def)

lemma commit_bounded: "stacks_bounded s \<Longrightarrow> stacks_bounded (editorOnChange v s)"
  by (cases "activeTab s") (simp_all add: change_defs stacks_bounded_def push_bounded)

lemma undo_bounded: "stacks_bounded s \<Longrightarrow> stacks_bounded (handleUndo s)"
  by (cases "activeTab s") (auto simp: handleUndo_def stacks_bounded_def split: list.splits)

lemma redo_bounded: "stacks_bounded s \<Longrightarrow> stacks_bounded (handleRedo s)"
  by (cases "activeTab s") (auto simp: handleRedo_def stacks_bounded_def split: list.splits)

lemma step_bounded: "stacks_bounded s \<Longrightarrow> stacks_bounded (step a s)"
  by (cases a) (simp_all add: commit_bounded undo_bounded redo_bounded,
      simp add: selectTab_def stacks_bounded_def)

lemma run_bounded: "stacks_bounded s \<Longrightarrow> stacks_bounded (run acts s)"
  by (induction acts arbitrary: s) (simp_all add: step_bounded)

lemma initial_bounded: "stacks_bounded (initial_state h c j)"
  by (simp add: initial_state_def stacks_bounded_def)

lemma take_full_Cons: "length st = Suc n \<Longrightarrow> take (Suc n) (v # st) = v # butlast st"
  by (simp add: butlast_conv_take)

lemma push_evicts:
  "length st = MAX_UNDO_STACK_SIZE \<Longrightarrow> st ! 0 \<noteq> v \<Longrightarrow> pushToUndoStackInternal v st = v # butlast st"
  using take_full_Cons [of st 49 v]
  by (simp add: pushToUndoStackInternal_def Let_def MAX_UNDO_STACK_SIZE_def)

lemma take_max_evicts:
  "length st = MAX_UNDO_STACK_SIZE \<Longrightarrow> take MAX_UNDO_STACK_SIZE (v # st) = v # butlast st"
  using take_full_Cons [of st 49 v] by (simp add: MAX_UNDO_STACK_SIZE_def)

text \<open>
  Claim C6.  After every sequence of commits, undos, redos (and tab switches) from the first
  render, and from any state whose stacks hold at most 50 entries, all undo and redo stacks
  hold at most 50 entries.  A push onto a stack that already holds 50 entries puts the new
  entry in front and drops the last, oldest one: for the undo stack when a commit pushes, for
  the redo stack when an undo pushes, and for the undo stack when a redo pushes.
\<close>

theorem stacks_never_exceed_bound:
  "stacks_bounded (run acts (initial_state h c j)) \<and>
   (stacks_bounded s \<longrightarrow> stacks_bounded (run acts s)) \<and>
   (length (doc_undo (activeTab s) s) = MAX_UNDO_STACK_SIZE \<and>
    v \<noteq> doc_text (activeTab s) s \<and>
    doc_undo (activeTab s) s ! 0 \<noteq> doc_text (activeTab s) s \<longrightarrow>
      doc_undo (activeTab s) (editorOnChange v s) =
        doc_text (activeTab s) s # butlast (doc_undo (activeTab s) s)) \<and>
   (length (doc_redo (activeTab s) s) = MAX_UNDO_STACK_SIZE \<and>
    doc_undo (activeTab s) s \<noteq> [] \<longrightarrow>
      doc_redo (activeTab s) (handleUndo s) =
        doc_text (activeTab s) s # butlast (doc_redo (activeTab s) s)) \<and>
   (length (doc_undo (activeTab s) s) = MAX_UNDO_STACK_SIZE \<and>
    doc_redo (activeTab s) s \<noteq> [] \<longrightarrow>
      doc_undo (activeTab s) (handleRedo s) =
        doc_text (activeTab s) s # butlast (doc_undo (activeTab s) s))"
proof (intro conjI impI)
  show "stacks_bounded (run acts (initial_state h c j))"
    by (rule run_bounded [OF initial_bounded])
next
  assume "stacks_bounded s"
  then show "stacks_bounded (run acts s)"
    by (rule run_bounded)
next
  assume a: "length (doc_undo (activeTab s) s) = MAX_UNDO_STACK_SIZE \<and>
    v \<noteq> doc_text (activeTab s) s \<and>
    doc_undo (activeTab s) s ! 0 \<noteq> doc_text (activeTab s) s"
  then show "doc_undo (activeTab s) (editorOnChange v s) =
        doc_text (activeTab s) s # butlast (doc_undo (activeTab s) s)"
    by (simp add: commit_undo_stack push_evicts)
next
  assume a: "length (doc_redo (activeTab s) s) = MAX_UNDO_STACK_SIZE \<and>
    doc_undo (activeTab s) s \<noteq> []"
  then obtain x xs where "doc_undo (activeTab s) s = x # xs"
    by (auto simp: neq_Nil_conv)
  then show "doc_redo (activeTab s) (handleUndo s) =
        doc_text (activeTab s) s # butlast (doc_redo (activeTab s) s)"
    using a undo_Cons [of s x xs] by (simp add: take_max_evicts)
next
  assume a: "length (doc_undo (activeTab s) s) = MAX_UNDO_STACK_SIZE \<and>
    doc_redo (activeTab s) s \<noteq> []"
  then obtain x xs where "doc_redo (activeTab s) s = x # xs"
    by (auto simp: neq_Nil_conv)
  then show "doc_undo (activeTab s) (handleRedo s) =
        doc_text (activeTab s) s # butlast (doc_undo (activeTab s) s)"
    using a redo_Cons [of s x xs] by (simp add: take_max_evicts)
qed



theorem stacks_never_exceed_bound_witness:
  "stacks_bounded full_state \<and>
   stacks_bounded (run [Commit ''x'', Undo, Redo] full_state) \<and>
   length (doc_undo Html full_state) = MAX_UNDO_STACK_SIZE \<and>
   ''x'' \<noteq> doc_text Html full_state \<and>
   doc_undo Html full_state ! 0 \<noteq> doc_text Html full_state \<and>
   doc_undo Html (editorOnChange ''x'' full_state) = ''new'' # ''newest'' # replicate 48 ''mid'' \<and>
   length (doc_redo Html full_state) = MAX_UNDO_STACK_SIZE \<and>
   doc_undo Html full_state \<noteq> [] \<and>
   doc_redo Html (handleUndo full_state) = ''new'' # ''r1'' # replicate 48 ''mid'' \<and>
   doc_redo Html full_state \<noteq> [] \<and>
   doc_undo Html (handleRedo full_state) = ''new'' # ''newest'' # replicate 48 ''mid''"
  using stacks_never_exceed_bound
    [where acts = "[Commit ''x'', Undo, Redo]" and s = full_state and v = "''x''"]
  by (simp add: full_state_def initial_state_def stacks_bounded_def doc_defs
      MAX_UNDO_STACK_SIZE_def butlast_append)

text \<open>
  Claim C7.  Committing the current text of the document changes nothing.  Committing a new
  text while the front of the undo stack already equals the text being replaced leaves the
  undo stack as it is.  Committing the same text twice in a row changes nothing the second
  time; in particular the undo stack does not grow again.
\<close>

theorem commit_same_text_no_growth:
  "editorOnChange (doc_text (activeTab s) s) s = s \<and>
   (v \<noteq> doc_text (activeTab s) s \<and> doc_undo (activeTab s) s \<noteq> [] \<and>
    doc_undo (activeTab s) s ! 0 = doc_text (activeTab s) s \<longrightarrow>
      doc_undo (activeTab s) (editorOnChange v s) = doc_undo (activeTab s) s) \<and>
   editorOnChange v (editorOnChange v s) = editorOnChange v s \<and>
   doc_undo (activeTab s) (editorOnChange v (editorOnChange v s)) =
     doc_undo (activeTab s) (editorOnChange v s)"
proof (intro conjI impI)
  show "editorOnChange (doc_text (activeTab s) s) s = s"
    by (rule commit_same)
next
  assume "v \<noteq> doc_text (activeTab s) s \<and> doc_undo (activeTab s) s \<noteq> [] \<and>
    doc_undo (activeTab s) s ! 0 = doc_text (activeTab s) s"
  then show "doc_undo (activeTab s) (editorOnChange v s) = doc_undo (activeTab s) s"
    by (simp add: commit_undo_stack pushToUndoStackInternal_def)
next
  show twice: "editorOnChange v (editorOnChange v s) = editorOnChange v s"
    using commit_same [of "editorOnChange v s"] by (simp add: commit_tab commit_text)
  show "doc_undo (activeTab s) (editorOnChange v (editorOnChange v s)) =
     doc_undo (activeTab s) (editorOnChange v s)"
    by (simp only: twice)
qed


theorem commit_same_text_no_growth_witness:
  "''b'' \<noteq> doc_text Html ((initial_state ''a'' [] [])\<lparr>htmlUndoStack := [''a'', ''z'']\<rparr>) \<and>
   doc_undo Html ((initial_state ''a'' [] [])\<lparr>htmlUndoStack := [''a'', ''z'']\<rparr>) ! 0 = ''a'' \<and>
   doc_undo Html
     (editorOnChange ''b'' ((initial_state ''a'' [] [])\<lparr>htmlUndoStack := [''a'', ''z'']\<rparr>)) =
     [''a'', ''z''] \<and>
   doc_undo Html (editorOnChange ''b'' (editorOnChange ''b'' (initial_state ''a'' [] []))) = [''a'']"
  using commit_same_text_no_growth
    [where s = "(initial_state ''a'' [] [])\<lparr>htmlUndoStack := [''a'', ''z'']\<rparr>" and v = "''b''"]
    commit_same_text_no_growth [where s = "initial_state ''a'' [] []" and v = "''b''"]
  by (simp add: initial_state_def doc_defs change_defs pushToUndoStackInternal_def
      MAX_UNDO_STACK_SIZE_def)

text \<open>
  Claim C8.  A commit with a text different from the current one leaves the redo stack of the
  document empty; a redo after it changes nothing and the redo button is disabled.  The
  instance below takes a state reached by an undo, whose redo stack is not empty.
\<close>

theorem edit_clears_redo:
  assumes "v \<noteq> doc_text (activeTab s) s"
  shows "doc_redo (activeTab s) (editorOnChange v s) = [] \<and>
         handleRedo (editorOnChange v s) = editorOnChange v s \<and>
         isRedoDisabled (editorOnChange v s)"
proof -
  have r: "doc_redo (activeTab s) (editorOnChange v s) = []"
    using assms by (rule commit_redo_stack)
  have n: "handleRedo (editorOnChange v s) = editorOnChange v s"
    using r redo_Nil [of "editorOnChange v s"] by (simp add: commit_tab)
  have d: "isRedoDisabled (editorOnChange v s)"
    using r commit_tab [of v s]
    by (cases "activeTab s") (simp_all add: isRedoDisabled_def doc_redo_def)
  show ?thesis using r n d by simp
qed

theorem edit_clears_redo_witness:
  "doc_redo Html undone_state = [''<div>hello</div>''] \<and>
   \<not> isRedoDisabled undone_state \<and>
   ''<p>new</p>'' \<noteq> doc_text (activeTab undone_state) undone_state \<and>
   doc_redo Html (editorOnChange ''<p>new</p>'' undone_state) = [] \<and>
   handleRedo (editorOnChange ''<p>new</p>'' undone_state) = editorOnChange ''<p>new</p>'' undone_state \<and>
   isRedoDisabled (editorOnChange ''<p>new</p>'' undone_state)"
  using edit_clears_redo [of "''<p>new</p>''" undone_state]
  by (simp add: undone_state_def initial_state_def change_defs handleUndo_def doc_defs
      pushToUndoStackInternal_def MAX_UNDO_STACK_SIZE_def isRedoDisabled_def)


section \<open>Properties of the import\<close>


text \<open>
  The \<open>catch\<close> branch of the callback: should the parse throw, the failure alert is shown and
  no setter has run.
\<close>

lemma onload_catch_branch:
  "parseFromString fileContent = Inl error \<Longrightarrow>
   handleImportProject_onload parseFromString fileContent s = (s, import_failure_message)"
  by (simp add: handleImportProject_onload_def)

text \<open>
  Claim C5.  An import fails when the selected file cannot be read.  Then the reader fires its
  \<open>error\<close> event, for which no handler is set: the state is left as it was, which is what the
  claim asks, but no alert at all is shown, where the claim asks for an explicit failure
  notification.
\<close>

theorem import_read_error_silent:
  "handleImportProject_onchange parseFromString (Some ReadError) s = (s, None)"
  by (simp add: handleImportProject_onchange_def)

text \<open>
  Claim C9.  When the parsed document has no element with id \<open>project-js\<close> and has the other
  two marker elements, the callback shows the success alert, the script text becomes the empty
  string, the markup text becomes the \<open>innerHTML\<close> of the content element and the style text
  the \<open>textContent\<close> of the style element.
\<close>

theorem import_without_script:
  assumes "parseFromString fileContent = Inr doc"
    and "doc ''project-js'' = None"
    and "doc ''project-html-content'' = Some h"
    and "doc ''project-css'' = Some c"
  shows "snd (handleImportProject_onload parseFromString fileContent s) = import_success_message \<and>
         jsCode (fst (handleImportProject_onload parseFromString fileContent s)) = [] \<and>
         htmlCode (fst (handleImportProject_onload parseFromString fileContent s)) = innerHTML h \<and>
         cssCode (fst (handleImportProject_onload parseFromString fileContent s)) = textContent c"
  using assms by (simp add: handleImportProject_onload_def Let_def)

theorem import_without_script_witness:
  "(\<exists>doc h c. no_script_parser ''file'' = Inr doc \<and> doc ''project-js'' = None \<and>
      doc ''project-html-content'' = Some h \<and> doc ''project-css'' = Some c) \<and>
   snd (handleImportProject_onload no_script_parser ''file'' undone_state) =
     ''Project imported successfully!'' \<and>
   jsCode (fst (handleImportProject_onload no_script_parser ''file'' undone_state)) = [] \<and>
   htmlCode (fst (handleImportProject_onload no_script_parser ''file'' undone_state)) = ''<p>hi</p>'' \<and>
   cssCode (fst (handleImportProject_onload no_script_parser ''file'' undone_state)) = ''p{}''"
  using import_without_script
    [of no_script_parser "''file''"
        "[''project-html-content'' \<mapsto> \<lparr>innerHTML = ''<p>hi</p>'', textContent = ''hi''\<rparr>,
          ''project-css'' \<mapsto> \<lparr>innerHTML = ''p{}'', textContent = ''p{}''\<rparr>]"
        "\<lparr>innerHTML = ''<p>hi</p>'', textContent = ''hi''\<rparr>"
        "\<lparr>innerHTML = ''p{}'', textContent = ''p{}''\<rparr>" undone_state]
  by (simp add: no_script_parser_def import_success_message_def)


section \<open>Properties of the search\<close>


lemma find_from_none:
  "find_from s t k = - 1 \<Longrightarrow> k \<le> j \<Longrightarrow> \<not> occurs_at s t j"
proof (induction s t k rule: find_from.induct)
  case (1 s t k)
  show ?case
  proof (cases "k + length t > length s")
    case True
    then show ?thesis using "1.prems" by (simp add: occurs_at_def)
  next
    case False
    then have ne: "take (length t) (drop k s) \<noteq> t"
      using "1.prems"(1) by (auto simp: find_from.simps [of s t k] split: if_splits)
    then have rec: "find_from s t (Suc k) = - 1"
      using "1.prems"(1) False by (simp add: find_from.simps [of s t k])
    show ?thesis
    proof (cases "j = k")
      case True
      then show ?thesis using ne by (simp add: occurs_at_def)
    next
      case False
      then have "Suc k \<le> j" using "1.prems"(2) by simp
      then show ?thesis using "1.IH" \<open>\<not> length s < k + length t\<close> ne rec by simp
    qed
  qed
qed

lemma find_from_some:
  "find_from s t k \<noteq> - 1 \<Longrightarrow>
   \<exists>j. find_from s t k = int j \<and> k \<le> j \<and> occurs_at s t j \<and>
       (\<forall>i. k \<le> i \<and> i < j \<longrightarrow> \<not> occurs_at s t i)"
proof (induction s t k rule: find_from.induct)
  case (1 s t k)
  have le: "\<not> length s < k + length t"
    using "1.prems" by (auto simp: find_from.simps [of s t k] split: if_splits)
  show ?case
  proof (cases "take (length t) (drop k s) = t")
    case True
    then have "find_from s t k = int k" using le by (simp add: find_from.simps [of s t k])
    moreover have "occurs_at s t k" using True le by (simp add: occurs_at_def)
    ultimately show ?thesis by auto
  next
    case False
    then have eq: "find_from s t k = find_from s t (Suc k)"
      using le by (simp add: find_from.simps [of s t k])
    then obtain j where j: "find_from s t (Suc k) = int j" "Suc k \<le> j" "occurs_at s t j"
      "\<forall>i. Suc k \<le> i \<and> i < j \<longrightarrow> \<not> occurs_at s t i"
      using "1.IH" [OF le False] "1.prems" by auto
    have "\<forall>i. k \<le> i \<and> i < j \<longrightarrow> \<not> occurs_at s t i"
    proof (intro allI impI)
      fix i assume i: "k \<le> i \<and> i < j"
      show "\<not> occurs_at s t i"
      proof (cases "i = k")
        case True then show ?thesis using False by (simp add: occurs_at_def)
      next
        case False then show ?thesis using i j(4) by simp
      qed
    qed
    then show ?thesis using eq j by auto
  qed
qed

lemma filter_upt_none:
  "(\<And>j. k \<le> j \<Longrightarrow> \<not> P j) \<Longrightarrow> filter P [k..<n] = []"
  by (simp add: filter_empty_conv)

lemma filter_upt_first:
  assumes "k \<le> j" "j < n" "P j" "\<forall>i. k \<le> i \<and> i < j \<longrightarrow> \<not> P i"
  shows "filter P [k..<n] = j # filter P [Suc j..<n]"
proof -
  have "[k..<n] = [k..<j] @ j # [Suc j..<n]"
    using assms(1,2) by (metis le_add_diff_inverse less_imp_le_nat upt_add_eq_append upt_conv_Cons)
  moreover have "filter P [k..<j] = []"
    using assms(4) by (simp add: filter_empty_conv)
  ultimately show ?thesis using assms(3) by simp
qed

lemma search_loop_all:
  assumes "t \<noteq> []"
  shows "- 1 \<le> i \<Longrightarrow> i < int (length s) \<Longrightarrow>
     search_loop s t i acc =
       Some (acc @ map int (filter (occurs_at s t) [nat (i + 1)..<Suc (length s)]))"
proof (induction "length s - nat (i + 1)" arbitrary: i acc rule: less_induct)
  case less
  have k: "indexOf s t (i + 1) = find_from s t (nat (i + 1))"
    using less.prems by (simp add: indexOf_def min_def max_def)
  show ?case
  proof (cases "find_from s t (nat (i + 1)) = - 1")
    case True
    then have "filter (occurs_at s t) [nat (i + 1)..<Suc (length s)] = []"
      using find_from_none [OF True] by (auto simp: filter_empty_conv)
    then show ?thesis using True k by (simp add: search_loop.simps [of s t i acc])
  next
    case False
    then obtain j where j: "find_from s t (nat (i + 1)) = int j" "nat (i + 1) \<le> j"
      "occurs_at s t j" "\<forall>i'. nat (i + 1) \<le> i' \<and> i' < j \<longrightarrow> \<not> occurs_at s t i'"
      using find_from_some [OF False] by auto
    have jlt: "j < length s"
      using j(3) assms by (cases t) (simp_all add: occurs_at_def)
    have f: "filter (occurs_at s t) [nat (i + 1)..<Suc (length s)] =
             j # filter (occurs_at s t) [Suc j..<Suc (length s)]"
      using filter_upt_first [of "nat (i + 1)" j "Suc (length s)" "occurs_at s t"] j jlt by simp
    have m: "length s - nat (int j + 1) < length s - nat (i + 1)"
      using j(2) jlt less.prems by linarith
    have rec: "search_loop s t (int j) (acc @ [int j]) =
        Some ((acc @ [int j]) @ map int (filter (occurs_at s t) [nat (int j + 1)..<Suc (length s)]))"
      using less.hyps [OF m] jlt by simp
    have "nat (int j + 1) = Suc j" by simp
    then show ?thesis
      using rec f j(1) k False by (simp add: search_loop.simps [of s t i acc])
  qed
qed

lemma search_loop_start:
  "t \<noteq> [] \<Longrightarrow> search_loop s t (- 1) [] = Some (all_occurrences s t)"
proof (cases "s = []")
  case True
  assume t: "t \<noteq> []"
  have "indexOf [] t 0 = - 1" using t by (simp add: indexOf_def find_from.simps [of "[]" t 0])
  moreover have "all_occurrences [] t = []" using t by (simp add: all_occurrences_def occurs_at_def)
  ultimately show ?thesis using True by (simp add: search_loop.simps [of "[]" t "- 1" "[]"])
next
  case False
  assume t: "t \<noteq> []"
  show ?thesis using search_loop_all [OF t, of "- 1" s "[]"] False
    by (simp add: all_occurrences_def)
qed

lemma trim_nonempty: "trim t \<noteq> [] \<Longrightarrow> toLowerCase t \<noteq> []"
  by (cases t) (simp_all add: trim_def toLowerCase_def)


lemmas search_defs = getCurrentEditorRef_def getCurrentCode_def

lemma all_occurrences_empty_text: "t \<noteq> [] \<Longrightarrow> all_occurrences [] t = []"
  by (simp add: all_occurrences_def occurs_at_def)

lemma search_blank_term:
  "trim (searchTerm s) = [] \<Longrightarrow>
   handleSearch refs navigation s = Some (s\<lparr>searchResults := no_results\<rparr>)"
  by (simp add: handleSearch_def Let_def)

lemma search_nonblank_term:
  assumes "getCurrentEditorRef refs s = Some True"
    and "getCurrentCode s \<noteq> []"
    and "trim (searchTerm s) \<noteq> []"
    and "searchTerm s \<noteq> lastSearchedTerm s \<or> navigation = None"
  shows "handleSearch refs navigation s =
     Some (s\<lparr>searchResults :=
              \<lparr>indices = all_occurrences (toLowerCase (getCurrentCode s)) (toLowerCase (searchTerm s)),
               currentResultIndex =
                 (if all_occurrences (toLowerCase (getCurrentCode s)) (toLowerCase (searchTerm s)) = []
                  then - 1 else 0)\<rparr>,
             lastSearchedTerm := searchTerm s\<rparr>)"
proof -
  have "search_loop (toLowerCase (getCurrentCode s)) (toLowerCase (searchTerm s)) (- 1) [] =
        Some (all_occurrences (toLowerCase (getCurrentCode s)) (toLowerCase (searchTerm s)))"
    using assms(3) by (intro search_loop_start trim_nonempty)
  then show ?thesis
    using assms by (simp add: handleSearch_def Let_def)
qed

lemma search_empty_text:
  assumes "getCurrentCode s = []" and "trim (searchTerm s) \<noteq> []"
  shows "handleSearch refs navigation s = Some (s\<lparr>searchResults := no_results\<rparr>) \<and>
         all_occurrences (toLowerCase (getCurrentCode s)) (toLowerCase (searchTerm s)) = []"
  using assms trim_nonempty [of "searchTerm s"]
  by (simp add: handleSearch_def Let_def toLowerCase_def all_occurrences_empty_text)

text \<open>
  Claim C4, as the code has it.  A blank term (empty or white space only) gives no matches and
  no selection, whatever the text, the editor and the navigation direction are.  With the
  active editor mounted and a term that is not blank, for every text, also the empty one:
  when the term differs from the last searched term or no navigation direction is given, the
  search returns, its match list holds every offset at which the lower-cased term occurs in
  the lower-cased text, in ascending order and with overlapping occurrences included (each
  scan resumes one position after the start of the previous match), and the selected index is
  0 when there is a match and -1 when there is none.  When the text is not empty the term is
  also recorded as the last searched term and nothing else changes.
\<close>

theorem search_recomputes_all_matches:
  "(trim (searchTerm s) = [] \<longrightarrow>
      handleSearch refs navigation s = Some (s\<lparr>searchResults := no_results\<rparr>)) \<and>
   (getCurrentEditorRef refs s = Some True \<and> trim (searchTerm s) \<noteq> [] \<and>
    (searchTerm s \<noteq> lastSearchedTerm s \<or> navigation = None) \<longrightarrow>
      (\<exists>s'. handleSearch refs navigation s = Some s' \<and>
            indices (searchResults s') =
              all_occurrences (toLowerCase (getCurrentCode s)) (toLowerCase (searchTerm s)) \<and>
            currentResultIndex (searchResults s') =
              (if all_occurrences (toLowerCase (getCurrentCode s)) (toLowerCase (searchTerm s)) = []
               then - 1 else 0)) \<and>
      (getCurrentCode s \<noteq> [] \<longrightarrow>
         handleSearch refs navigation s =
           Some (s\<lparr>searchResults :=
                    \<lparr>indices =
                       all_occurrences (toLowerCase (getCurrentCode s)) (toLowerCase (searchTerm s)),
                     currentResultIndex =
                       (if all_occurrences (toLowerCase (getCurrentCode s))
                             (toLowerCase (searchTerm s)) = []
                        then - 1 else 0)\<rparr>,
                   lastSearchedTerm := searchTerm s\<rparr>)))"
proof (intro conjI impI)
  assume "trim (searchTerm s) = []"
  then show "handleSearch refs navigation s = Some (s\<lparr>searchResults := no_results\<rparr>)"
    by (rule search_blank_term)
next
  assume a: "getCurrentEditorRef refs s = Some True \<and> trim (searchTerm s) \<noteq> [] \<and>
    (searchTerm s \<noteq> lastSearchedTerm s \<or> navigation = None)"
  show "\<exists>s'. handleSearch refs navigation s = Some s' \<and>
            indices (searchResults s') =
              all_occurrences (toLowerCase (getCurrentCode s)) (toLowerCase (searchTerm s)) \<and>
            currentResultIndex (searchResults s') =
              (if all_occurrences (toLowerCase (getCurrentCode s)) (toLowerCase (searchTerm s)) = []
               then - 1 else 0)"
  proof (cases "getCurrentCode s = []")
    case True
    then show ?thesis
      using search_empty_text [of s refs navigation] a by (simp add: no_results_def)
  next
    case False
    then show ?thesis
      using search_nonblank_term [of refs s navigation] a by simp
  qed
next
  assume a: "getCurrentEditorRef refs s = Some True \<and> trim (searchTerm s) \<noteq> [] \<and>
    (searchTerm s \<noteq> lastSearchedTerm s \<or> navigation = None)"
    and c: "getCurrentCode s \<noteq> []"
  show "handleSearch refs navigation s =
           Some (s\<lparr>searchResults :=
                    \<lparr>indices =
                       all_occurrences (toLowerCase (getCurrentCode s)) (toLowerCase (searchTerm s)),
                     currentResultIndex =
                       (if all_occurrences (toLowerCase (getCurrentCode s))
                             (toLowerCase (searchTerm s)) = []
                        then - 1 else 0)\<rparr>,
                   lastSearchedTerm := searchTerm s\<rparr>)"
    using search_nonblank_term [of refs s navigation] a c by simp
qed

theorem search_recomputes_all_matches_witness:
  "trim (searchTerm blank_state) = [] \<and>
   handleSearch all_mounted None blank_state =
     Some (blank_state\<lparr>searchResults := \<lparr>indices = [], currentResultIndex = - 1\<rparr>\<rparr>) \<and>
   getCurrentEditorRef all_mounted overlap_state = Some True \<and>
   getCurrentCode overlap_state \<noteq> [] \<and>
   trim (searchTerm overlap_state) \<noteq> [] \<and>
   handleSearch all_mounted None overlap_state =
     Some (overlap_state\<lparr>searchResults := \<lparr>indices = [0, 1], currentResultIndex = 0\<rparr>,
             lastSearchedTerm := ''aa''\<rparr>) \<and>
   getCurrentEditorRef all_mounted empty_text_state = Some True \<and>
   getCurrentCode empty_text_state = [] \<and>
   trim (searchTerm empty_text_state) \<noteq> [] \<and>
   (\<exists>s'. handleSearch all_mounted None empty_text_state = Some s' \<and>
         indices (searchResults s') = [] \<and> currentResultIndex (searchResults s') = - 1)"
proof -
  have bl: "trim (searchTerm blank_state) = []"
    by code_simp
  have a: "getCurrentEditorRef all_mounted overlap_state = Some True \<and>
           getCurrentCode overlap_state \<noteq> []"
    by (simp add: search_defs all_mounted_def overlap_state_def initial_state_def)
  have c: "trim (searchTerm overlap_state) \<noteq> []"
    by code_simp
  have d: "all_occurrences (toLowerCase (getCurrentCode overlap_state))
             (toLowerCase (searchTerm overlap_state)) = [0, 1]"
    by code_simp
  have e: "searchTerm overlap_state = ''aa''"
    by (simp add: overlap_state_def)
  have a': "getCurrentEditorRef all_mounted empty_text_state = Some True \<and>
            getCurrentCode empty_text_state = []"
    by (simp add: search_defs all_mounted_def empty_text_state_def initial_state_def)
  have c': "trim (searchTerm empty_text_state) \<noteq> []"
    by code_simp
  have d': "all_occurrences (toLowerCase (getCurrentCode empty_text_state))
              (toLowerCase (searchTerm empty_text_state)) = []"
    by code_simp
  show ?thesis
    using search_recomputes_all_matches [of blank_state all_mounted None]
      search_recomputes_all_matches [of overlap_state all_mounted None]
      search_recomputes_all_matches [of empty_text_state all_mounted None]
      bl a c d e a' c' d'
    by (simp add: no_results_def)
qed

text \<open>
  Claim C4 as stated fails.  For the term \<open>aa\<close> in the text \<open>aaa\<close> the search finds the offsets
  0 and 1, while a scan that resumes at the end of the previous match finds offset 0 only.
  For the blank term of one space in the text \<open>a b\<close> the search finds nothing, while the scan
  finds offset 1.
\<close>

theorem search_overlap_counterexample:
  "map_option (\<lambda>s'. indices (searchResults s')) (handleSearch all_mounted None overlap_state) =
     Some [0, 1] \<and>
   scan_from_match_end (toLowerCase ''aaa'') (toLowerCase ''aa'') 0 0 = [0] \<and>
   map_option (\<lambda>s'. indices (searchResults s')) (handleSearch all_mounted None blank_state) =
     Some [] \<and>
   scan_from_match_end (toLowerCase ''a b'') (toLowerCase '' '') 0 0 = [1]"
  by code_simp

lemma js_rem_nonneg: "0 \<le> a \<Longrightarrow> 0 < b \<Longrightarrow> js_rem a b = a mod b"
  by (cases "a = 0") (simp_all add: js_rem_def)

text \<open>
  Claim C10.  Searching \<open>div\<close> in \<open><div><div>\<close> gives the offsets 1 and 6 and selects index 0;
  "next" with the term unchanged selects index 1, and a further "next" selects index 0 again.
  In general, with an unchanged term, a match list that is not empty and a selected index that
  is not negative, "next" adds one and "prev" subtracts one, modulo the number of matches.
\<close>

theorem search_navigation_wraps:
  "handleSearch all_mounted None div_state = Some (div_found 0) \<and>
   handleSearch all_mounted (Some Next) (div_found 0) = Some (div_found 1) \<and>
   handleSearch all_mounted (Some Next) (div_found 1) = Some (div_found 0) \<and>
   (getCurrentEditorRef refs s = Some True \<and> getCurrentCode s \<noteq> [] \<and>
    trim (searchTerm s) \<noteq> [] \<and> lastSearchedTerm s = searchTerm s \<and>
    indices (searchResults s) \<noteq> [] \<and> 0 \<le> currentResultIndex (searchResults s) \<longrightarrow>
      handleSearch refs (Some Next) s =
        Some (s\<lparr>searchResults :=
                 \<lparr>indices = indices (searchResults s),
                  currentResultIndex =
                    (currentResultIndex (searchResults s) + 1)
                      mod int (length (indices (searchResults s)))\<rparr>\<rparr>) \<and>
      handleSearch refs (Some Prev) s =
        Some (s\<lparr>searchResults :=
                 \<lparr>indices = indices (searchResults s),
                  currentResultIndex =
                    (currentResultIndex (searchResults s) - 1)
                      mod int (length (indices (searchResults s)))\<rparr>\<rparr>))"
proof (intro conjI impI)
  have m: "getCurrentEditorRef all_mounted div_state = Some True"
    by (simp add: search_defs all_mounted_def div_state_def initial_state_def)
  have c: "getCurrentCode div_state = ''<div><div>''"
    by (simp add: search_defs div_state_def initial_state_def)
  have t: "trim (searchTerm div_state) \<noteq> []"
    by code_simp
  have o: "all_occurrences (toLowerCase ''<div><div>'') (toLowerCase (searchTerm div_state)) = [1, 6]"
    by code_simp
  show "handleSearch all_mounted None div_state = Some (div_found 0)"
    using search_loop_start [OF trim_nonempty [OF t], of "toLowerCase ''<div><div>''"] m c t o
    by (simp add: handleSearch_def Let_def div_found_def div_state_def)
  have m': "getCurrentEditorRef all_mounted (div_found i) = Some True" for i
    by (simp add: search_defs all_mounted_def div_found_def div_state_def initial_state_def)
  have c': "getCurrentCode (div_found i) \<noteq> []" for i
    by (simp add: search_defs div_found_def div_state_def initial_state_def)
  have t': "trim (searchTerm (div_found i)) \<noteq> []" for i
    using t by (simp add: div_found_def)
  show "handleSearch all_mounted (Some Next) (div_found 0) = Some (div_found 1)"
    using m' [of 0] c' [of 0] t' [of 0]
    by (simp add: handleSearch_def Let_def js_rem_def) (simp add: div_found_def div_state_def)
  show "handleSearch all_mounted (Some Next) (div_found 1) = Some (div_found 0)"
    using m' [of 1] c' [of 1] t' [of 1]
    by (simp add: handleSearch_def Let_def js_rem_def) (simp add: div_found_def div_state_def)
next
  assume a: "getCurrentEditorRef refs s = Some True \<and> getCurrentCode s \<noteq> [] \<and>
    trim (searchTerm s) \<noteq> [] \<and> lastSearchedTerm s = searchTerm s \<and>
    indices (searchResults s) \<noteq> [] \<and> 0 \<le> currentResultIndex (searchResults s)"
  then have n: "0 < int (length (indices (searchResults s)))" by simp
  have "js_rem (currentResultIndex (searchResults s) + 1) (int (length (indices (searchResults s))))
        = (currentResultIndex (searchResults s) + 1) mod int (length (indices (searchResults s)))"
    using a n by (intro js_rem_nonneg) simp_all
  then show "handleSearch refs (Some Next) s =
        Some (s\<lparr>searchResults :=
                 \<lparr>indices = indices (searchResults s),
                  currentResultIndex =
                    (currentResultIndex (searchResults s) + 1)
                      mod int (length (indices (searchResults s)))\<rparr>\<rparr>)"
    using a by (simp add: handleSearch_def Let_def)
next
  assume a: "getCurrentEditorRef refs s = Some True \<and> getCurrentCode s \<noteq> [] \<and>
    trim (searchTerm s) \<noteq> [] \<and> lastSearchedTerm s = searchTerm s \<and>
    indices (searchResults s) \<noteq> [] \<and> 0 \<le> currentResultIndex (searchResults s)"
  then have n: "0 < int (length (indices (searchResults s)))" by simp
  have "js_rem (currentResultIndex (searchResults s) - 1 + int (length (indices (searchResults s))))
          (int (length (indices (searchResults s))))
        = (currentResultIndex (searchResults s) - 1 + int (length (indices (searchResults s))))
             mod int (length (indices (searchResults s)))"
  proof (rule js_rem_nonneg)
    show "0 \<le> currentResultIndex (searchResults s) - 1 + int (length (indices (searchResults s)))"
      using a n by linarith
    show "0 < int (length (indices (searchResults s)))"
      by (rule n)
  qed
  then show "handleSearch refs (Some Prev) s =
        Some (s\<lparr>searchResults :=
                 \<lparr>indices = indices (searchResults s),
                  currentResultIndex =
                    (currentResultIndex (searchResults s) - 1)
                      mod int (length (indices (searchResults s)))\<rparr>\<rparr>)"
    using a by (simp add: handleSearch_def Let_def)
qed

theorem search_navigation_wraps_witness:
  "getCurrentEditorRef all_mounted (div_found 1) = Some True \<and>
   getCurrentCode (div_found 1) \<noteq> [] \<and>
   trim (searchTerm (div_found 1)) \<noteq> [] \<and>
   lastSearchedTerm (div_found 1) = searchTerm (div_found 1) \<and>
   indices (searchResults (div_found 1)) = [1, 6] \<and>
   currentResultIndex (searchResults (div_found 1)) = 1 \<and>
   map_option (\<lambda>s'. currentResultIndex (searchResults s'))
     (handleSearch all_mounted (Some Next) (div_found 1)) = Some 0 \<and>
   map_option (\<lambda>s'. currentResultIndex (searchResults s'))
     (handleSearch all_mounted (Some Prev) (div_found 1)) = Some 0"
proof -
  have t: "trim (searchTerm (div_found 1)) \<noteq> []"
    by code_simp
  have m: "getCurrentEditorRef all_mounted (div_found 1) = Some True \<and>
           getCurrentCode (div_found 1) \<noteq> []"
    by (simp add: search_defs all_mounted_def div_found_def div_state_def initial_state_def)
  have r: "lastSearchedTerm (div_found 1) = searchTerm (div_found 1) \<and>
           indices (searchResults (div_found 1)) = [1, 6] \<and>
           currentResultIndex (searchResults (div_found 1)) = 1"
    by (simp add: div_found_def div_state_def)
  show ?thesis
    using search_navigation_wraps [of all_mounted "div_found 1"] t m r
    by (simp add: div_found_def div_state_def)
qed


section \<open>Properties of the highlighter\<close>

subsection \<open>Replacing by a character class\<close>

lemma js_replace_atom:
  "js_replace (Atom cs) f p s =
     concat (map (\<lambda>c. if list_ex (in_class c) cs then f [c] else [c]) s)"
proof (induction s arbitrary: p)
  case Nil
  show ?case by (simp add: js_replace.simps [of _ _ _ "[]"])
next
  case (Cons c s)
  show ?case
    by (simp add: js_replace.simps [of _ _ _ "c # s"] Cons.IH)
qed

lemma escapeHtml_map: "escapeHtml text = concat (map escape_unit text)"
proof -
  have "(\<lambda>c. if list_ex (in_class c)
                  [One CHR ''&'', One CHR ''<'', One CHR ''>'', One (CHR 0x22), One (CHR 0x27)]
             then escape_match [c] else [c]) = escape_unit"
    by (rule ext) (simp add: escape_unit_def escape_match_def)
  then show ?thesis
    by (simp add: escapeHtml_def js_replace_atom)
qed

lemma escapeHtml_Nil: "escapeHtml [] = []"
  by (simp add: escapeHtml_map)

lemma escapeHtml_Cons: "escapeHtml (c # cs) = escape_unit c @ escapeHtml cs"
  by (simp add: escapeHtml_map)

lemma escape_unit_no_angle: "CHR ''<'' \<notin> set (escape_unit c) \<and> CHR ''>'' \<notin> set (escape_unit c)"
  by (simp add: escape_unit_def)

lemma escapeHtml_no_angle: "CHR ''<'' \<notin> set (escapeHtml t) \<and> CHR ''>'' \<notin> set (escapeHtml t)"
  by (induction t) (simp_all add: escapeHtml_Nil escapeHtml_Cons escape_unit_no_angle)

lemma unescapeHtml_Nil: "unescapeHtml [] = []"
  by (simp add: unescapeHtml.simps [of "[]"])

lemma unescapeHtml_Cons:
  "unescapeHtml (c # cs) =
     (if startsWith (c # cs) ''&amp;'' then CHR ''&'' # unescapeHtml (drop 5 (c # cs))
      else if startsWith (c # cs) ''&lt;'' then CHR ''<'' # unescapeHtml (drop 4 (c # cs))
      else if startsWith (c # cs) ''&gt;'' then CHR ''>'' # unescapeHtml (drop 4 (c # cs))
      else if startsWith (c # cs) ''&quot;'' then CHR 0x22 # unescapeHtml (drop 6 (c # cs))
      else if startsWith (c # cs) ''&#39;'' then CHR 0x27 # unescapeHtml (drop 5 (c # cs))
      else c # unescapeHtml cs)"
  by (subst unescapeHtml.simps) simp

lemma unescape_escape_unit: "unescapeHtml (escape_unit c @ rest) = c # unescapeHtml rest"
  by (simp add: escape_unit_def unescapeHtml_Cons startsWith_def)

lemma unescape_escape: "unescapeHtml (escapeHtml t) = t"
  by (induction t)
    (simp_all add: escapeHtml_Nil escapeHtml_Cons unescape_escape_unit unescapeHtml_Nil)

lemma nl2br_map:
  "js_replace (chr (CHR 0x0A)) (\<lambda>m. ''<br>'') p s =
     concat (map (\<lambda>c. if c = CHR 0x0A then ''<br>'' else [c]) s)"
  by (simp add: chr_def js_replace_atom)

subsection \<open>Inserted spans keep the outer text\<close>

lemma outer_text_append:
  "outer_text (a @ b) d = outer_text a d @ outer_text b (depth_after a d)"
  by (induction a arbitrary: d) simp_all

lemma depth_after_append: "depth_after (a @ b) d = depth_after b (depth_after a d)"
  by (induction a arbitrary: d) simp_all

lemma no_lt_b_append:
  "no_lt_b (a @ b) prev \<longleftrightarrow>
     no_lt_b a prev \<and> no_lt_b b (if a = [] then prev else last a = CHR ''<'')"
  by (induction a arbitrary: prev) auto

lemma no_lt_b_weaken: "no_lt_b a prev \<Longrightarrow> no_lt_b a False"
  by (cases a) auto

lemma span_open_outer: "outer_text (span_open cls) d = [] \<and> depth_after (span_open cls) d = d"
  by (cases cls) (simp_all add: span_open_def)

lemma span_open_no_lt_b: "no_lt_b (span_open cls) prev \<and> last (span_open cls) = CHR ''>''"
  by (cases cls) (simp_all add: span_open_def)

lemma span_close_outer: "outer_text span_close d = [] \<and> depth_after span_close d = d"
  by (simp add: span_close_def)

lemma span_close_no_lt_b: "no_lt_b span_close prev \<and> last span_close = CHR ''>''"
  by (simp add: span_close_def)

lemma same_text_refl: "same_text a a"
  by (simp add: same_text_def)

lemma same_text_trans: "same_text a b \<Longrightarrow> same_text b c \<Longrightarrow> same_text a c"
  by (simp add: same_text_def)

lemma same_text_prefix: "same_text a b \<Longrightarrow> same_text (m @ a) (m @ b)"
  by (simp add: same_text_def outer_text_append depth_after_append no_lt_b_append)

lemma same_text_wrapped:
  assumes "same_text a b"
  shows "same_text (span_open cls @ m @ span_close @ a) (m @ b)"
proof -
  have o: "outer_text (span_open cls @ m @ span_close @ a) d = outer_text (m @ b) d" for d
    using assms
    by (simp add: same_text_def outer_text_append depth_after_append span_open_outer
        span_close_outer)
  have e: "depth_after (span_open cls @ m @ span_close @ a) d = depth_after (m @ b) d" for d
    using assms
    by (simp add: same_text_def depth_after_append span_open_outer span_close_outer)
  have n: "no_lt_b (span_open cls @ m @ span_close @ a) prev" if h: "no_lt_b (m @ b) prev" for prev
  proof -
    have m: "no_lt_b m False"
      using h no_lt_b_weaken [of m prev] by (simp add: no_lt_b_append)
    have "no_lt_b b False"
      using h no_lt_b_weaken [of b] by (auto simp: no_lt_b_append split: if_splits)
    then have a: "no_lt_b a False"
      using assms by (simp add: same_text_def)
    have so: "span_open cls \<noteq> []" "span_close \<noteq> []"
      by (simp_all add: span_open_def span_close_def)
    show ?thesis
      using m a so span_open_no_lt_b [of cls prev] span_close_no_lt_b
      by (simp add: no_lt_b_append)
  qed
  show ?thesis
    using o e n by (simp add: same_text_def)
qed

lemma wrap_match_cases:
  "wrap_match cls m = m \<or> wrap_match cls m = span_open cls @ m @ span_close"
  by (simp add: wrap_match_def)

lemma same_text_wrap_match:
  "same_text a b \<Longrightarrow> same_text (wrap_match cls m @ a) (m @ b)"
  using wrap_match_cases [of cls m] same_text_prefix [of a b m] same_text_wrapped [of a b cls m]
  by auto

lemma js_replace_same_text: "same_text (js_replace re (wrap_match cls) p s) s"
proof (induction "length s" arbitrary: p s rule: less_induct)
  case less
  show ?case
  proof (cases s)
    case Nil
    have "same_text (wrap_match cls [] @ []) ([] @ [])"
      by (rule same_text_wrap_match [OF same_text_refl])
    then show ?thesis
      using Nil by (simp add: js_replace.simps [of _ _ _ "[]"] same_text_refl split: option.splits)
  next
    case (Cons c cs)
    have tail: "same_text (c # js_replace re (wrap_match cls) (Some c) cs) s"
      using less [of cs "Some c"] same_text_prefix [of _ cs "[c]"] Cons by simp
    show ?thesis
    proof (cases "rmatch re (p, s) Some")
      case None
      then show ?thesis
        using tail Cons by (simp add: js_replace.simps [of re _ p "c # cs"])
    next
      case (Some r)
      obtain q rest where r: "r = (q, rest)" by (cases r)
      show ?thesis
      proof (cases "length s - length rest = 0")
        case True
        have "same_text (wrap_match cls [] @ c # js_replace re (wrap_match cls) (Some c) cs) ([] @ s)"
          by (rule same_text_wrap_match [OF tail])
        then show ?thesis
          using Some r True Cons by (simp add: js_replace.simps [of re _ p "c # cs"])
      next
        case False
        let ?n = "length s - length rest"
        have "length (drop ?n s) < length s"
          using False Cons by simp
        then have "same_text (js_replace re (wrap_match cls) q (drop ?n s)) (drop ?n s)"
          by (rule less)
        then have "same_text (wrap_match cls (take ?n s) @ js_replace re (wrap_match cls) q (drop ?n s))
                     (take ?n s @ drop ?n s)"
          by (rule same_text_wrap_match)
        then show ?thesis
          using Some r False by (simp add: js_replace.simps [of re _ p s])
      qed
    qed
  qed
qed

lemma foldl_apply_rule_same_text: "same_text (foldl apply_rule s rs) s"
proof (induction rs arbitrary: s)
  case Nil
  show ?case by (simp add: same_text_refl)
next
  case (Cons r rs)
  have "same_text (apply_rule s r) s"
    by (simp add: apply_rule_def js_replace_same_text)
  then show ?case
    using Cons [of "apply_rule s r"] same_text_trans by auto
qed

lemma no_angle_outer:
  "CHR ''<'' \<notin> set s \<Longrightarrow> CHR ''>'' \<notin> set s \<Longrightarrow> outer_text s 0 = s \<and> no_lt_b s False"
  by (induction s) auto

subsection \<open>Reading back what the highlighter wrote\<close>

lemma strip_markup_nl2br:
  "strip_markup (nl2br x) m = Some y \<Longrightarrow> strip_markup x m = Some y"
proof (induction x arbitrary: m y)
  case Nil
  then show ?case by (simp add: nl2br_def)
next
  case (Cons c x)
  have tl: "nl2br (c # x) = (if c = CHR 0x0A then ''<br>'' else [c]) @ nl2br x"
    by (simp add: nl2br_def)
  show ?case
  proof (cases "c = CHR 0x0A")
    case True
    show ?thesis
    proof (cases m)
      case Outside
      then obtain y' where y': "strip_markup (nl2br x) Outside = Some y'" "y = CHR 0x0A # y'"
        using Cons.prems True tl by (auto simp: classify_tag_def)
      then show ?thesis
        using Cons.IH [OF y'(1)] True Outside by simp
    next
      case (Inside b)
      then show ?thesis using Cons.prems True tl by simp
    qed
  next
    case False
    show ?thesis
    proof (cases m)
      case Outside
      then show ?thesis
        using Cons.prems False tl Cons.IH by (auto split: if_splits)
    next
      case (Inside b)
      then show ?thesis
        using Cons.prems False tl Cons.IH by (auto split: if_splits option.splits)
    qed
  qed
qed

lemma classify_tag_not_br:
  "b \<noteq> [] \<Longrightarrow> last b \<noteq> CHR ''b'' \<Longrightarrow> classify_tag (rev b) = Some t \<Longrightarrow> t = []"
  by (cases b rule: rev_cases) (auto simp: classify_tag_def split: if_splits)

lemma classify_tag_empty: "classify_tag [] = None"
  by (simp add: classify_tag_def startsWith_def)

lemma strip_markup_outer:
  "strip_markup x m = Some y \<Longrightarrow>
   (m = Outside \<longrightarrow> no_lt_b x False \<longrightarrow> y = outer_text x 0) \<and>
   (\<forall>b. m = Inside b \<longrightarrow>
      (b = [] \<and> no_lt_b x True) \<or> (b \<noteq> [] \<and> last b \<noteq> CHR ''b'' \<and> no_lt_b x False) \<longrightarrow>
      y = outer_text x 1)"
proof (induction x arbitrary: m y)
  case Nil
  then show ?case by (cases m) simp_all
next
  case (Cons c x)
  show ?case
  proof (cases m)
    case Outside
    show ?thesis
    proof (cases "c = CHR ''<''")
      case True
      then have s: "strip_markup x (Inside []) = Some y"
        using Cons.prems Outside by simp
      show ?thesis
        using Cons.IH [OF s] True Outside by simp
    next
      case False
      then obtain y' where y': "strip_markup x Outside = Some y'" "y = c # y'" "c \<noteq> CHR ''>''"
        using Cons.prems Outside by (auto split: if_splits)
      show ?thesis
        using Cons.IH [OF y'(1)] y'(2,3) False Outside by simp
    qed
  next
    case (Inside b)
    have nlt: "c \<noteq> CHR ''<''"
      using Cons.prems Inside by (auto split: if_splits)
    show ?thesis
    proof (cases "c = CHR ''>''")
      case True
      then obtain t y' where t: "classify_tag (rev b) = Some t"
        "strip_markup x Outside = Some y'" "y = t @ y'"
        using Cons.prems Inside by (auto split: option.splits)
      have bne: "b \<noteq> []"
        using t(1) classify_tag_empty by auto
      show ?thesis
      proof (intro conjI allI impI)
        assume "m = Outside"
        then show "y = outer_text (c # x) 0" using Inside by simp
      next
        fix b' assume m: "m = Inside b'"
          and c: "(b' = [] \<and> no_lt_b (c # x) True) \<or>
                  (b' \<noteq> [] \<and> last b' \<noteq> CHR ''b'' \<and> no_lt_b (c # x) False)"
        have b': "b' = b" using m Inside by simp
        then have "t = []"
          using c bne t(1) classify_tag_not_br [of b t] by auto
        moreover have "no_lt_b x False"
          using c True by auto
        ultimately show "y = outer_text (c # x) 1"
          using Cons.IH [OF t(2)] t(3) True by simp
      qed
    next
      case False
      then have s: "strip_markup x (Inside (c # b)) = Some y"
        using Cons.prems Inside nlt by simp
      show ?thesis
      proof (intro conjI allI impI)
        assume "m = Outside"
        then show "y = outer_text (c # x) 0" using Inside by simp
      next
        fix b' assume m: "m = Inside b'"
          and c: "(b' = [] \<and> no_lt_b (c # x) True) \<or>
                  (b' \<noteq> [] \<and> last b' \<noteq> CHR ''b'' \<and> no_lt_b (c # x) False)"
        have b': "b' = b" using m Inside by simp
        have "last (c # b) \<noteq> CHR ''b'' \<and> no_lt_b x False"
          using c b' nlt by auto
        then show "y = outer_text (c # x) 1"
          using Cons.IH [OF s] False nlt by simp
      qed
    qed
  qed
qed

lemma applySyntaxHighlighting_nl2br:
  "t \<noteq> [] \<Longrightarrow>
   applySyntaxHighlighting t lang = nl2br (foldl apply_rule (escapeHtml t) (rules_for lang))"
  by (simp add: applySyntaxHighlighting_def nl2br_map nl2br_def)

text \<open>
  Claim C1, as the code has it.  Whenever the tags of the highlighter's output can be read
  back (every \<open><\<close> opens a span tag or a line-break marker that the next \<open>>\<close> closes), deleting
  the span tags and turning the line-break markers into newlines gives the escaped text
  \<open>escapeHtml t\<close>, and decoding the five entities in it gives \<open>t\<close> exactly.  This holds for
  every text and each of the three languages.
\<close>

theorem highlight_read_back:
  assumes "strip_markup (applySyntaxHighlighting t lang) Outside = Some y"
  shows "y = escapeHtml t \<and> unescapeHtml y = t"
proof (cases "t = []")
  case True
  then have "y = []"
    using assms by (simp add: applySyntaxHighlighting_def)
  then show ?thesis
    using True by (simp add: escapeHtml_Nil unescapeHtml_Nil)
next
  case False
  let ?e = "escapeHtml t"
  let ?x = "foldl apply_rule ?e (rules_for lang)"
  have "strip_markup (nl2br ?x) Outside = Some y"
    using assms applySyntaxHighlighting_nl2br [OF False, of lang] by simp
  then have s: "strip_markup ?x Outside = Some y"
    by (rule strip_markup_nl2br)
  have e: "outer_text ?e 0 = ?e \<and> no_lt_b ?e False"
    using escapeHtml_no_angle [of t] by (simp add: no_angle_outer)
  have st: "same_text ?x ?e"
    by (rule foldl_apply_rule_same_text)
  then have "no_lt_b ?x False" and "outer_text ?x 0 = ?e"
    using e by (simp_all add: same_text_def)
  then have "y = ?e"
    using strip_markup_outer [OF s] by simp
  then show ?thesis
    by (simp add: unescape_escape)
qed

theorem highlight_read_back_witness:
  "strip_markup (applySyntaxHighlighting sample_markup html) Outside =
     Some (escapeHtml sample_markup) \<and>
   applySyntaxHighlighting sample_markup html \<noteq> escapeHtml sample_markup \<and>
   unescapeHtml (escapeHtml sample_markup) = sample_markup \<and>
   strip_markup (applySyntaxHighlighting ''a{color:red;}'' css) Outside = Some ''a{color:red;}'' \<and>
   unescapeHtml ''a{color:red;}'' = ''a{color:red;}'' \<and>
   strip_markup (applySyntaxHighlighting ''a+b'' javascript) Outside = Some ''a+b'' \<and>
   applySyntaxHighlighting ''a+b'' javascript \<noteq> ''a+b'' \<and>
   unescapeHtml ''a+b'' = ''a+b''"
proof -
  have h: "strip_markup (applySyntaxHighlighting sample_markup html) Outside =
     Some (escapeHtml sample_markup)"
    by code_simp
  have d: "applySyntaxHighlighting sample_markup html \<noteq> escapeHtml sample_markup"
    by code_simp
  have c: "strip_markup (applySyntaxHighlighting ''a{color:red;}'' css) Outside =
     Some ''a{color:red;}''"
    by code_simp
  have j: "strip_markup (applySyntaxHighlighting ''a+b'' javascript) Outside = Some ''a+b''"
    by code_simp
  have dj: "applySyntaxHighlighting ''a+b'' javascript \<noteq> ''a+b''"
    by code_simp
  show ?thesis
    using highlight_read_back [OF h] highlight_read_back [OF c] highlight_read_back [OF j]
      h d c j dj by simp
qed

text \<open>
  Claim C1 as stated fails: for the text \<open><\<close> in the markup language no rule matches, the
  output is the escaped text \<open>&lt;\<close> without any tag, and reading it back gives \<open>&lt;\<close>, not \<open><\<close>.
\<close>

theorem highlight_round_trip_counterexample:
  "applySyntaxHighlighting ''<'' html = ''&lt;'' \<and>
   strip_markup (applySyntaxHighlighting ''<'' html) Outside \<noteq> Some ''<''"
  by code_simp

text \<open>
  Where the tags cannot be read back: a later rule also matches inside the tag that an earlier
  rule wrote.  In the markup language the string rule matches the quoted class name of a
  comment span, so a text with a URL gives malformed markup; in the script language the
  number and operator rules match inside the span of a keyword.
\<close>

lemma highlight_url_malformed:
  "strip_markup (applySyntaxHighlighting sample_url html) Outside = None"
  by code_simp

lemma highlight_keyword_malformed:
  "strip_markup (applySyntaxHighlighting ''if'' javascript) Outside = None"
  by code_simp

end
